theory Spec2Isabelle
  imports Main
begin

section \<open>Text\<close>

text \<open>
  Python \<^verbatim>\<open>str\<close> values are modelled as \<^typ>\<open>string\<close>. Every marker, selector and
  URL the detector looks for is plain ASCII, so searching the UTF-8 bytes of a text finds
  a marker exactly where searching its code points does.
\<close>

fun startswith :: "string \<Rightarrow> string \<Rightarrow> bool" where
  "startswith [] s = True"
| "startswith (p # ps) [] = False"
| "startswith (p # ps) (c # cs) = (p = c \<and> startswith ps cs)"

text \<open>Python's \<^verbatim>\<open>sub in s\<close> on strings: \<open>sub\<close> occurs at some position of \<open>s\<close>.\<close>

fun contains :: "string \<Rightarrow> string \<Rightarrow> bool" where
  "contains sub [] = (sub = [])"
| "contains sub (c # cs) = (startswith sub (c # cs) \<or> contains sub cs)"

text \<open>
  The reading of "contains" that the specification uses: the marker sits between some
  prefix and some suffix of the text. It is not executable; \<open>contains\<close> is.
\<close>

definition occurs_in :: "string \<Rightarrow> string \<Rightarrow> bool" where
  "occurs_in m s \<longleftrightarrow> (\<exists>pre post. s = pre @ m @ post)"

section \<open>The API response classifier\<close>

text \<open>
  \<^verbatim>\<open>_parse_api_response\<close> (lines 147-171). The two flags are computed with \<^verbatim>\<open>in\<close> on a
  \<^verbatim>\<open>str\<close>, which cannot raise, so the \<^verbatim>\<open>except\<close> branch of the function is dead and the
  model is a plain function into \<^verbatim>\<open>Optional[str]\<close>.
\<close>

definition has_2tb :: "string \<Rightarrow> bool" where
  \<open>has_2tb response_text \<longleftrightarrow>
     contains ''2 TB'' response_text \<or> contains ''2TB'' response_text
     \<or> contains ''"2 TB"'' response_text\<close>

definition has_antigravity :: "string \<Rightarrow> bool" where
  \<open>has_antigravity response_text \<longleftrightarrow>
     contains ''Antigravity'' response_text \<or> contains ''"Antigravity"'' response_text\<close>

definition parse_api_response :: "string \<Rightarrow> string option" where
  "parse_api_response response_text =
     (if has_2tb response_text then
        (if has_antigravity response_text then Some ''subscribed_antigravity''
         else Some ''subscribed'')
      else None)"

section \<open>Failures\<close>

text \<open>
  The exceptions the session operations raise; all of them are subclasses of Python's
  \<^verbatim>\<open>Exception\<close>. \<^verbatim>\<open>asyncio.TimeoutError\<close> is kept apart from Playwright's own
  \<^verbatim>\<open>TimeoutError\<close> because line 121 catches only the former. Task cancellation is not
  modelled: the detector has no cancel signal.
\<close>

datatype exn = AsyncioTimeoutError | PlaywrightTimeoutError | PlaywrightError | AssertionError

text \<open>Python truthiness of an \<^verbatim>\<open>Optional[str]\<close>: \<^verbatim>\<open>None\<close> and \<^verbatim>\<open>''\<close> are false.\<close>

definition truthy :: "string option \<Rightarrow> bool" where
  "truthy x = (case x of None \<Rightarrow> False | Some s \<Rightarrow> s \<noteq> [])"

section \<open>The page and the world behind it\<close>

text \<open>
  The Playwright \<^verbatim>\<open>Page\<close> is owned by the caller. The model keeps the two things the
  detector changes or that can be observed of it: how many handlers are registered per
  event, and the sequence of operations issued on the page, oldest first.
  \<open>WaitForEvent\<close> stands for the await of \<^verbatim>\<open>response_received\<close> on lines 117-120.
\<close>

datatype call =
    Goto string
  | ExpectVisible string
  | LocatorCount string
  | GetAttribute string string
  | Content
  | Url
  | On string
  | RemoveListener string
  | WaitForEvent
  | WaitForLoadState string

record page =
  listeners :: "string \<Rightarrow> nat"
  calls :: "call list"

text \<open>A network response as the handler sees it: its URL and what \<^verbatim>\<open>await response.text()\<close> gives.\<close>

record response =
  resp_url :: string
  resp_text :: "exn + string"

text \<open>
  What the browser answers. Each operation either returns (\<open>Inr\<close>) or raises (\<open>Inl\<close>).
  One detection call issues every operation at most once per argument, so answers
  indexed by the argument cover every behaviour of the page during one call. The three
  response lists are the responses whose handler runs to completion while the check is
  suspended in the navigation, in the await of the completion event and in the
  network-idle wait, in the order in which their bodies are stored.
\<close>

record world =
  goto_result :: "string \<Rightarrow> exn + unit"
  visible_result :: "string \<Rightarrow> exn + unit"
  count_result :: "string \<Rightarrow> exn + nat"
  href_result :: "exn + string option"
  content_result :: "exn + string"
  idle_result :: "exn + unit"
  url_result :: "exn + string"
  on_result :: "exn + unit"
  remove_result :: "exn + unit"
  goto_responses :: "response list"
  wait_responses :: "response list"
  idle_responses :: "response list"

definition called :: "call \<Rightarrow> page \<Rightarrow> page" where
  "called c p = p\<lparr>calls := calls p @ [c]\<rparr>"

definition page_goto :: "world \<Rightarrow> string \<Rightarrow> page \<Rightarrow> (exn + unit) \<times> page" where
  "page_goto w u p = (goto_result w u, called (Goto u) p)"

definition expect_visible :: "world \<Rightarrow> string \<Rightarrow> page \<Rightarrow> (exn + unit) \<times> page" where
  "expect_visible w selector p = (visible_result w selector, called (ExpectVisible selector) p)"

definition locator_count :: "world \<Rightarrow> string \<Rightarrow> page \<Rightarrow> (exn + nat) \<times> page" where
  "locator_count w selector p = (count_result w selector, called (LocatorCount selector) p)"

definition get_attribute :: "world \<Rightarrow> string \<Rightarrow> string \<Rightarrow> page \<Rightarrow> (exn + string option) \<times> page" where
  "get_attribute w selector name p = (href_result w, called (GetAttribute selector name) p)"

definition page_content :: "world \<Rightarrow> page \<Rightarrow> (exn + string) \<times> page" where
  "page_content w p = (content_result w, called Content p)"

definition page_url :: "world \<Rightarrow> page \<Rightarrow> (exn + string) \<times> page" where
  "page_url w p = (url_result w, called Url p)"

definition wait_for_load_state :: "world \<Rightarrow> string \<Rightarrow> page \<Rightarrow> (exn + unit) \<times> page" where
  "wait_for_load_state w st p = (idle_result w, called (WaitForLoadState st) p)"

text \<open>
  \<^verbatim>\<open>page.on\<close> and \<^verbatim>\<open>page.remove_listener\<close> edit the page object's handler table and
  tell the browser which events to report; telling the browser fails when the connection
  to it is closed. \<^verbatim>\<open>page.on\<close> tells the browser first and registers afterwards, so a
  call that raises registers nothing. \<^verbatim>\<open>page.remove_listener\<close> removes the handler
  first, so the handler is gone also when the call raises.
\<close>

definition page_on :: "world \<Rightarrow> string \<Rightarrow> page \<Rightarrow> (exn + unit) \<times> page" where
  "page_on w ev p =
     (case on_result w of
        Inl e \<Rightarrow> (Inl e, called (On ev) p)
      | Inr u \<Rightarrow>
          (Inr u, called (On ev) (p\<lparr>listeners := (listeners p)(ev := Suc (listeners p ev))\<rparr>)))"

definition page_remove_listener ::
  "world \<Rightarrow> string \<Rightarrow> page \<Rightarrow> (exn + unit) \<times> page" where
  "page_remove_listener w ev p =
     (remove_result w,
      called (RemoveListener ev) (p\<lparr>listeners := (listeners p)(ev := listeners p ev - 1)\<rparr>))"

section \<open>Login detection\<close>

definition avatar_selectors :: "string list" where
  \<open>avatar_selectors =
     [''a[aria-label*="Google Account"] img.gbii'',
      ''a.gb_B[role="button"] img'',
      ''a[href*="SignOutOptions"] img'',
      ''img.gb_Q.gbii'']\<close>

text \<open>The loop of lines 38-46: the first selector that becomes visible ends it with \<^verbatim>\<open>True\<close>.\<close>

fun avatar_loop :: "world \<Rightarrow> string list \<Rightarrow> page \<Rightarrow> bool \<times> page" where
  "avatar_loop w [] p = (False, p)"
| "avatar_loop w (selector # rest) p =
     (case expect_visible w selector p of
        (Inr _, p') \<Rightarrow> (True, p')
      | (Inl e, p') \<Rightarrow> avatar_loop w rest p')"

text \<open>The body of the \<^verbatim>\<open>try\<close> of \<^verbatim>\<open>check_google_login_by_avatar\<close> (lines 22-49).\<close>

definition check_google_login_by_avatar_try :: "world \<Rightarrow> page \<Rightarrow> (exn + bool) \<times> page" where
  "check_google_login_by_avatar_try w p =
     (case page_goto w ''https://accounts.google.com/'' p of
        (Inl e, p') \<Rightarrow> (Inl e, p')
      | (Inr _, p') \<Rightarrow> (case avatar_loop w avatar_selectors p' of (b, p'') \<Rightarrow> (Inr b, p'')))"

text \<open>The function with its handler (lines 51-53). \<open>Inl\<close> would be an exception that escapes.\<close>

definition check_google_login_by_avatar :: "world \<Rightarrow> page \<Rightarrow> (exn + bool) \<times> page" where
  "check_google_login_by_avatar w p =
     (case check_google_login_by_avatar_try w p of
        (Inl e, p') \<Rightarrow> (Inr False, p')
      | (Inr b, p') \<Rightarrow> (Inr b, p'))"

definition login_indicators :: "string list" where
  "login_indicators =
     [''accounts.google.com/v3/signin'',
      ''accounts.google.com/signin'',
      ''accounts.google.com/ServiceLogin'']"

definition is_on_login_page :: "world \<Rightarrow> page \<Rightarrow> (exn + bool) \<times> page" where
  "is_on_login_page w p =
     (case page_url w p of
        (Inl e, p') \<Rightarrow> (Inr False, p')
      | (Inr current_url, p') \<Rightarrow>
          (Inr (list_ex (\<lambda>indicator. contains indicator current_url) login_indicators), p'))"

section \<open>The response handler\<close>

text \<open>The two closure variables of \<^verbatim>\<open>check_google_one_status_v2\<close> (lines 87-88).\<close>

record capture =
  api_response_data :: "string option"
  response_received :: bool

text \<open>
  \<^verbatim>\<open>handle_response\<close> (lines 90-100), run to completion on one response. A failure of
  \<^verbatim>\<open>response.text()\<close> is caught and leaves both variables as they were.
\<close>

definition handle_response :: "response \<Rightarrow> capture \<Rightarrow> capture" where
  "handle_response r c =
     (if contains ''rpcids=GI6Jdd'' (resp_url r) then
        (case resp_text r of
           Inr t \<Rightarrow> c\<lparr>api_response_data := Some t, response_received := True\<rparr>
         | Inl e \<Rightarrow> c)
      else c)"

definition deliver :: "response list \<Rightarrow> capture \<Rightarrow> capture" where
  "deliver rs c = fold handle_response rs c"

section \<open>The verification link\<close>

definition not_quote :: "char \<Rightarrow> bool" where
  "not_quote c \<longleftrightarrow> c \<noteq> CHR 0x22 \<and> c \<noteq> CHR 0x27"

text \<open>
  \<^verbatim>\<open>re.search(r'https://[^"\']*sheerid\.com[^"\']*', content)\<close> followed by \<^verbatim>\<open>group(0)\<close>:
  the leftmost \<^verbatim>\<open>https://\<close> whose following run of characters other than the two quotes
  holds \<^verbatim>\<open>sheerid.com\<close>; both starred classes are greedy, so the match is \<^verbatim>\<open>https://\<close>
  with that whole run.
\<close>

fun re_search_sheerid :: "string \<Rightarrow> string option" where
  "re_search_sheerid [] = None"
| "re_search_sheerid (c # cs) =
     (if startswith ''https://'' (c # cs) then
        (let run = takeWhile not_quote (drop 8 (c # cs)) in
         if contains ''sheerid.com'' run then Some (''https://'' @ run)
         else re_search_sheerid cs)
      else re_search_sheerid cs)"

text \<open>Lines 238-246: the second method, on the rendered markup.\<close>

definition extract_from_content :: "world \<Rightarrow> page \<Rightarrow> (exn + string option) \<times> page" where
  "extract_from_content w p =
     (case page_content w p of
        (Inl e, p') \<Rightarrow> (Inl e, p')
      | (Inr content, p') \<Rightarrow> (Inr (re_search_sheerid content), p'))"

text \<open>The body of the \<^verbatim>\<open>try\<close> of \<^verbatim>\<open>_extract_sheerid_link\<close> (lines 230-246).\<close>

definition extract_sheerid_link_try :: "world \<Rightarrow> page \<Rightarrow> (exn + string option) \<times> page" where
  \<open>extract_sheerid_link_try w p =
     (case locator_count w ''a[href*="sheerid.com"]'' p of
        (Inl e, p1) \<Rightarrow> (Inl e, p1)
      | (Inr n, p1) \<Rightarrow>
          if n > 0 then
            (case get_attribute w ''a[href*="sheerid.com"]'' ''href'' p1 of
               (Inl e, p2) \<Rightarrow> (Inl e, p2)
             | (Inr href, p2) \<Rightarrow>
                 if truthy href then (Inr href, p2) else extract_from_content w p2)
          else extract_from_content w p1)\<close>

definition extract_sheerid_link :: "world \<Rightarrow> page \<Rightarrow> (exn + string option) \<times> page" where
  "extract_sheerid_link w p =
     (case extract_sheerid_link_try w p of
        (Inl e, p') \<Rightarrow> (Inr None, p')
      | (Inr link, p') \<Rightarrow> (Inr link, p'))"

section \<open>The page-element classifier\<close>

definition offer_selectors :: "string list" where
  \<open>offer_selectors =
     [''button:has-text("Get student offer")'',
      ''button:has-text("Get offer")'',
      ''[data-action="offerDetails"]'']\<close>

text \<open>The loop of lines 206-212; a selector whose query raises is skipped.\<close>

fun offer_loop :: "world \<Rightarrow> string list \<Rightarrow> page \<Rightarrow> bool \<times> page" where
  "offer_loop w [] p = (False, p)"
| "offer_loop w (selector # rest) p =
     (case locator_count w selector p of
        (Inr n, p') \<Rightarrow> if n > 0 then (True, p') else offer_loop w rest p'
      | (Inl e, p') \<Rightarrow> offer_loop w rest p')"

text \<open>The body of the \<^verbatim>\<open>try\<close> of \<^verbatim>\<open>_detect_page_elements\<close> (lines 181-216).\<close>

definition detect_page_elements_try ::
  "world \<Rightarrow> page \<Rightarrow> (exn + string \<times> string option) \<times> page" where
  \<open>detect_page_elements_try w p =
     (case locator_count w ''[jsname="hSRGPd"]'' p of
        (Inl e, p1) \<Rightarrow> (Inl e, p1)
      | (Inr n1, p1) \<Rightarrow>
          if n1 > 0 then
            (case extract_sheerid_link w p1 of
               (Inl e, p2) \<Rightarrow> (Inl e, p2)
             | (Inr sheerid_link, p2) \<Rightarrow> (Inr (''link_ready'', sheerid_link), p2))
          else
            (case locator_count w ''[jsname="V67aGc"]'' p1 of
               (Inl e, p2) \<Rightarrow> (Inl e, p2)
             | (Inr n2, p2) \<Rightarrow>
                 if n2 > 0 then (Inr (''verified'', None), p2)
                 else
                   (case extract_sheerid_link w p2 of
                      (Inl e, p3) \<Rightarrow> (Inl e, p3)
                    | (Inr sheerid_link, p3) \<Rightarrow>
                        if truthy sheerid_link then (Inr (''link_ready'', sheerid_link), p3)
                        else
                          (case offer_loop w offer_selectors p3 of
                             (found, p4) \<Rightarrow>
                               if found then (Inr (''verified'', None), p4)
                               else (Inr (''ineligible'', None), p4)))))\<close>

text \<open>The function with its handler (lines 218-220).\<close>

definition detect_page_elements ::
  "world \<Rightarrow> page \<Rightarrow> (exn + string \<times> string option) \<times> page" where
  "detect_page_elements w p =
     (case detect_page_elements_try w p of
        (Inl e, p') \<Rightarrow> (Inr (''ineligible'', None), p')
      | (Inr r, p') \<Rightarrow> (Inr r, p'))"

section \<open>The qualification check\<close>

text \<open>
  \<^verbatim>\<open>asyncio.wait_for(response_received.wait(), timeout)\<close> (lines 117-120). An event that
  is already set is returned at once; otherwise the check is suspended while the
  responses of \<open>wait_responses\<close> are handled, and the await ends normally if one of them
  set the event and with \<^verbatim>\<open>asyncio.TimeoutError\<close> if none did.
\<close>

definition wait_for_event :: "world \<Rightarrow> capture \<Rightarrow> page \<Rightarrow> (exn + unit) \<times> capture \<times> page" where
  "wait_for_event w c p =
     (if response_received c then (Inr (), c, called WaitForEvent p)
      else
        (let c' = deliver (wait_responses w) c in
         (if response_received c' then Inr () else Inl AsyncioTimeoutError,
          c', called WaitForEvent p)))"

text \<open>
  The body of the outer \<^verbatim>\<open>try\<close> of \<^verbatim>\<open>check_google_one_status_v2\<close> (lines 106-134), given
  the closure variables as they are when the listener has been registered.
\<close>

definition check_google_one_status_v2_try ::
  "world \<Rightarrow> capture \<Rightarrow> page \<Rightarrow> (exn + string \<times> string option) \<times> page" where
  "check_google_one_status_v2_try w c0 p0 =
     (case page_goto w ''https://one.google.com/ai-student?g1_landing_page=75'' p0 of
        (Inl e, p1) \<Rightarrow> (Inl e, p1)
      | (Inr _, p1) \<Rightarrow>
          (case wait_for_event w (deliver (goto_responses w) c0) p1 of
             (waited, c2, p2) \<Rightarrow>
               (case (case waited of
                        Inl e \<Rightarrow> if e = AsyncioTimeoutError then Inr () else Inl e
                      | Inr u \<Rightarrow> Inr u) of
                  Inl e \<Rightarrow> (Inl e, p2)
                | Inr _ \<Rightarrow>
                    (case wait_for_load_state w ''networkidle'' p2 of
                       (Inl e, p3) \<Rightarrow> (Inl e, p3)
                     | (Inr _, p3) \<Rightarrow>
                         (let c3 = deliver (idle_responses w) c2 in
                          case (if truthy (api_response_data c3)
                                then (case api_response_data c3 of
                                        Some d \<Rightarrow> parse_api_response d | None \<Rightarrow> None)
                                else None) of
                            Some status \<Rightarrow>
                              if status \<noteq> [] then (Inr (status, None), p3)
                              else detect_page_elements w p3
                          | None \<Rightarrow> detect_page_elements w p3)))))"

text \<open>
  The whole function. The listener is registered on line 103, before the \<^verbatim>\<open>try\<close>: an
  exception raised there leaves the function. Then the body runs, and any exception of it
  becomes \<^verbatim>\<open>('error', None)\<close> (lines 136-140). The listener is removed in the \<^verbatim>\<open>finally\<close>
  clause (line 144): an exception raised there replaces the result that was to be
  returned.
\<close>

definition check_google_one_status_v2 ::
  "world \<Rightarrow> page \<Rightarrow> (exn + string \<times> string option) \<times> page" where
  "check_google_one_status_v2 w p =
     (case page_on w ''response'' p of
        (Inl e, p0) \<Rightarrow> (Inl e, p0)
      | (Inr _, p0) \<Rightarrow>
          (case check_google_one_status_v2_try w
                  \<lparr>api_response_data = None, response_received = False\<rparr> p0 of
             (r, p1) \<Rightarrow>
               (case page_remove_listener w ''response'' p1 of
                  (Inl e, p2) \<Rightarrow> (Inl e, p2)
                | (Inr _, p2) \<Rightarrow>
                    (case r of
                       Inl e \<Rightarrow> (Inr (''error'', None), p2)
                     | Inr status_and_link \<Rightarrow> (Inr status_and_link, p2)))))"

section \<open>The complete detection\<close>

text \<open>\<^verbatim>\<open>full_google_detection\<close> (lines 255-276); it has no handler of its own.\<close>

definition full_google_detection ::
  "world \<Rightarrow> page \<Rightarrow> (exn + bool \<times> string \<times> string option) \<times> page" where
  "full_google_detection w p =
     (case check_google_login_by_avatar w p of
        (Inl e, p1) \<Rightarrow> (Inl e, p1)
      | (Inr is_logged_in, p1) \<Rightarrow>
          if \<not> is_logged_in then (Inr (False, ''not_logged_in'', None), p1)
          else
            (case check_google_one_status_v2 w p1 of
               (Inl e, p2) \<Rightarrow> (Inl e, p2)
             | (Inr (status, sheerid_link), p2) \<Rightarrow> (Inr (True, status, sheerid_link), p2)))"

section \<open>Bookkeeping\<close>

text \<open>The page after further operations have been issued on it; nothing else changes.\<close>

definition appended :: "call list \<Rightarrow> page \<Rightarrow> page" where
  "appended cs p = p\<lparr>calls := calls p @ cs\<rparr>"

definition listener_call :: "call \<Rightarrow> bool" where
  "listener_call c = (case c of On _ \<Rightarrow> True | RemoveListener _ \<Rightarrow> True | _ \<Rightarrow> False)"

text \<open>A sequence of operations that neither registers nor removes a handler.\<close>

definition quiet :: "call list \<Rightarrow> bool" where
  "quiet cs = list_all (\<lambda>c. \<not> listener_call c) cs"

text \<open>
  The closure variables as line 128 reads them: after the responses of the navigation,
  those of the await of the event (only entered with the event unset) and those of the
  network-idle wait have been handled.
\<close>

definition captured :: "world \<Rightarrow> capture" where
  "captured w =
     (let c1 = deliver (goto_responses w) \<lparr>api_response_data = None, response_received = False\<rparr>;
          c2 = (if response_received c1 then c1 else deliver (wait_responses w) c1)
      in deliver (idle_responses w) c2)"

text \<open>What lines 128-131 make of them: the status of a non-empty stored body, if it has one.\<close>

definition api_status :: "world \<Rightarrow> string option" where
  "api_status w =
     (case api_response_data (captured w) of
        Some d \<Rightarrow> if d \<noteq> [] then parse_api_response d else None
      | None \<Rightarrow> None)"

text \<open>
  What the caller of the qualification check receives when the check was about to hand
  back \<open>r\<close>: the exception of \<^verbatim>\<open>page.on\<close> if it raised, else the exception of
  \<^verbatim>\<open>page.remove_listener\<close> if it raised, else \<open>r\<close> itself.
\<close>

definition returned :: "world \<Rightarrow> exn + 'a \<Rightarrow> exn + 'a" where
  "returned w r =
     (case on_result w of
        Inl e \<Rightarrow> Inl e
      | Inr _ \<Rightarrow> (case remove_result w of Inl e \<Rightarrow> Inl e | Inr _ \<Rightarrow> r))"

text \<open>A response that the handler stores, and the body it stores.\<close>

definition captures :: "response \<Rightarrow> bool" where
  "captures r \<longleftrightarrow>
     contains ''rpcids=GI6Jdd'' (resp_url r)
     \<and> (case resp_text r of Inr _ \<Rightarrow> True | Inl _ \<Rightarrow> False)"

definition body_of :: "response \<Rightarrow> string" where
  "body_of r = (case resp_text r of Inr t \<Rightarrow> t | Inl _ \<Rightarrow> [])"

section \<open>Sample pages\<close>

definition fresh_page :: page where
  "fresh_page = \<lparr>listeners = (\<lambda>_. 0), calls = []\<rparr>"

text \<open>A page on which every operation succeeds and nothing is found, with no traffic.\<close>

definition quiet_world :: world where
  "quiet_world =
     \<lparr>goto_result = (\<lambda>_. Inr ()), visible_result = (\<lambda>_. Inr ()),
      count_result = (\<lambda>_. Inr 0), href_result = Inr None, content_result = Inr [],
      idle_result = Inr (), url_result = Inr [], on_result = Inr (), remove_result = Inr (),
      goto_responses = [], wait_responses = [], idle_responses = []\<rparr>"

text \<open>Two responses of the watched backend call.\<close>

definition subscribed_response :: response where
  \<open>subscribed_response =
     \<lparr>resp_url = ''https://one.google.com/_/rpc?rpcids=GI6Jdd'', resp_text = Inr ''["2 TB"]''\<rparr>\<close>

definition plain_response :: response where
  "plain_response =
     \<lparr>resp_url = ''https://one.google.com/_/rpc?rpcids=GI6Jdd'', resp_text = Inr ''[]''\<rparr>"

definition twice_answered_world :: world where
  "twice_answered_world = quiet_world\<lparr>goto_responses := [subscribed_response, plain_response]\<rparr>"

definition answered_world :: world where
  "answered_world = quiet_world\<lparr>wait_responses := [subscribed_response]\<rparr>"

definition answered_unsettled_world :: world where
  "answered_unsettled_world = answered_world\<lparr>idle_result := Inl PlaywrightTimeoutError\<rparr>"

definition signed_out_world :: world where
  "signed_out_world = quiet_world\<lparr>visible_result := (\<lambda>_. Inl AssertionError)\<rparr>"

definition pending_world :: world where
  \<open>pending_world =
     quiet_world\<lparr>count_result := (\<lambda>s. if s = ''[jsname="hSRGPd"]'' then Inr 1 else Inr 0)\<rparr>\<close>

text \<open>Every queried element is there, and the first anchor carries a link.\<close>

definition crowded_world :: world where
  "crowded_world =
     quiet_world\<lparr>count_result := (\<lambda>_. Inr 1),
       href_result := Inr (Some ''https://services.sheerid.com/verify/1'')\<rparr>"

definition linked_world :: world where
  \<open>linked_world =
     quiet_world\<lparr>count_result := (\<lambda>s. if s = ''a[href*="sheerid.com"]'' then Inr 1 else Inr 0),
       href_result := Inr (Some ''https://services.sheerid.com/verify/1'')\<rparr>\<close>

definition slow_navigation_world :: world where
  "slow_navigation_world =
     quiet_world\<lparr>goto_result :=
       (\<lambda>u. if u = ''https://accounts.google.com/'' then Inr () else Inl PlaywrightTimeoutError)\<rparr>"

definition unsettled_verified_world :: world where
  \<open>unsettled_verified_world =
     quiet_world\<lparr>count_result := (\<lambda>s. if s = ''[jsname="V67aGc"]'' then Inr 1 else Inr 0),
       idle_result := Inl PlaywrightTimeoutError\<rparr>\<close>

definition broken_query_world :: world where
  \<open>broken_query_world =
     quiet_world\<lparr>count_result :=
       (\<lambda>s. if s = ''[jsname="hSRGPd"]'' then Inl PlaywrightError else Inr 1)\<rparr>\<close>

text \<open>A browser on which every operation fails.\<close>

definition offline_world :: world where
  "offline_world =
     \<lparr>goto_result = (\<lambda>_. Inl PlaywrightError), visible_result = (\<lambda>_. Inl PlaywrightTimeoutError),
      count_result = (\<lambda>_. Inl PlaywrightError), href_result = Inl PlaywrightError,
      content_result = Inl PlaywrightError, idle_result = Inl PlaywrightTimeoutError,
      url_result = Inl PlaywrightError, on_result = Inl PlaywrightError,
      remove_result = Inl PlaywrightError,
      goto_responses = [], wait_responses = [], idle_responses = []\<rparr>"

text \<open>
  A verification is pending, and the connection closes while the check runs: removing
  the listener fails.
\<close>

definition closing_world :: world where
  "closing_world = pending_world\<lparr>remove_result := Inl PlaywrightError\<rparr>"

text \<open>Navigation and waits succeed, every element query fails.\<close>

definition unreadable_dom_world :: world where
  "unreadable_dom_world = quiet_world\<lparr>count_result := (\<lambda>_. Inl PlaywrightError)\<rparr>"

text \<open>The markers are absent, the anchor query and the first offer query fail, the second offer is there.\<close>

definition flaky_world :: world where
  \<open>flaky_world =
     quiet_world\<lparr>count_result :=
       (\<lambda>s. if s = ''[jsname="hSRGPd"]'' \<or> s = ''[jsname="V67aGc"]'' then Inr 0
            else if s = ''button:has-text("Get offer")'' then Inr 1
            else Inl PlaywrightError)\<rparr>\<close>

section \<open>Facts about text search\<close>

lemma startswith_iff: "startswith m s \<longleftrightarrow> (\<exists>post. s = m @ post)"
  by (induction m s rule: startswith.induct) auto

lemma contains_occurs_in: "contains m s \<longleftrightarrow> occurs_in m s"
proof (induction s)
  case Nil
  show ?case by (auto simp: occurs_in_def)
next
  case (Cons c cs)
  have "occurs_in m (c # cs) \<longleftrightarrow> (\<exists>post. c # cs = m @ post) \<or> occurs_in m cs"
    unfolding occurs_in_def
  proof
    assume "\<exists>pre post. c # cs = pre @ m @ post"
    then obtain pre post where eq: "c # cs = pre @ m @ post" by blast
    show "(\<exists>post. c # cs = m @ post) \<or> (\<exists>pre post. cs = pre @ m @ post)"
    proof (cases pre)
      case Nil
      with eq show ?thesis by auto
    next
      case (Cons a pre')
      with eq have "cs = pre' @ m @ post" by simp
      then show ?thesis by blast
    qed
  next
    assume "(\<exists>post. c # cs = m @ post) \<or> (\<exists>pre post. cs = pre @ m @ post)"
    then show "\<exists>pre post. c # cs = pre @ m @ post"
    proof
      assume "\<exists>post. c # cs = m @ post"
      then obtain post where "c # cs = [] @ m @ post" by auto
      then show ?thesis by blast
    next
      assume "\<exists>pre post. cs = pre @ m @ post"
      then obtain pre post where "c # cs = (c # pre) @ m @ post" by auto
      then show ?thesis by blast
    qed
  qed
  with Cons show ?case by (simp add: startswith_iff)
qed

section \<open>How the operations use the page\<close>

lemma appended_appended: "appended ds (appended cs p) = appended (cs @ ds) p"
  by (simp add: appended_def)

lemma called_appended: "called c p = appended [c] p"
  by (simp add: called_def appended_def)

lemma appended_Nil: "appended [] p = p"
  by (simp add: appended_def)

lemma quiet_simps:
  "quiet []"
  "quiet (c # cs) \<longleftrightarrow> \<not> listener_call c \<and> quiet cs"
  "quiet (cs @ ds) \<longleftrightarrow> quiet cs \<and> quiet ds"
  by (auto simp: quiet_def)

lemma listener_call_simps:
  "\<not> listener_call (Goto u)" "\<not> listener_call (ExpectVisible s)"
  "\<not> listener_call (LocatorCount s)" "\<not> listener_call (GetAttribute s n)"
  "\<not> listener_call Content" "\<not> listener_call Url" "\<not> listener_call WaitForEvent"
  "\<not> listener_call (WaitForLoadState st)" "listener_call (On ev)"
  "listener_call (RemoveListener ev)"
  by (simp_all add: listener_call_def)

lemmas ops =
  page_goto_def expect_visible_def locator_count_def get_attribute_def page_content_def
  page_url_def wait_for_load_state_def called_appended appended_appended

lemma avatar_loop_shape:
  "\<exists>b cs. (\<forall>p. avatar_loop w ss p = (b, appended cs p)) \<and> quiet cs"
proof (induction ss)
  case Nil
  have "(\<forall>p. avatar_loop w [] p = (False, appended [] p)) \<and> quiet []"
    by (simp add: appended_Nil quiet_simps)
  then show ?case by blast
next
  case (Cons s ss)
  then obtain b cs where ih: "\<forall>p. avatar_loop w ss p = (b, appended cs p)"
    and q: "quiet cs" by blast
  show ?case
  proof (cases "visible_result w s")
    case (Inl e)
    have "(\<forall>p. avatar_loop w (s # ss) p = (b, appended (ExpectVisible s # cs) p))
        \<and> quiet (ExpectVisible s # cs)"
      using Inl ih q by (simp add: ops quiet_simps listener_call_simps)
    then show ?thesis by blast
  next
    case (Inr u)
    have "(\<forall>p. avatar_loop w (s # ss) p = (True, appended [ExpectVisible s] p))
        \<and> quiet [ExpectVisible s]"
      using Inr by (simp add: ops quiet_simps listener_call_simps)
    then show ?thesis by blast
  qed
qed

lemma login_shape:
  "\<exists>b cs. (\<forall>p. check_google_login_by_avatar w p = (Inr b, appended cs p)) \<and> quiet cs"
proof (cases "goto_result w ''https://accounts.google.com/''")
  case (Inl e)
  have "(\<forall>p. check_google_login_by_avatar w p
            = (Inr False, appended [Goto ''https://accounts.google.com/''] p))
      \<and> quiet [Goto ''https://accounts.google.com/'']"
    using Inl
    by (simp add: check_google_login_by_avatar_def check_google_login_by_avatar_try_def ops
        quiet_simps listener_call_simps)
  then show ?thesis by blast
next
  case (Inr u)
  obtain b cs where l: "\<forall>p. avatar_loop w avatar_selectors p = (b, appended cs p)"
    and q: "quiet cs" using avatar_loop_shape by blast
  have "(\<forall>p. check_google_login_by_avatar w p
            = (Inr b, appended (Goto ''https://accounts.google.com/'' # cs) p))
      \<and> quiet (Goto ''https://accounts.google.com/'' # cs)"
    using Inr l q
    by (simp add: check_google_login_by_avatar_def check_google_login_by_avatar_try_def ops
        quiet_simps listener_call_simps)
  then show ?thesis by blast
qed

lemma offer_loop_shape:
  "\<exists>b cs. (\<forall>p. offer_loop w ss p = (b, appended cs p)) \<and> quiet cs"
proof (induction ss)
  case Nil
  have "(\<forall>p. offer_loop w [] p = (False, appended [] p)) \<and> quiet []"
    by (simp add: appended_Nil quiet_simps)
  then show ?case by blast
next
  case (Cons s ss)
  then obtain b cs where ih: "\<forall>p. offer_loop w ss p = (b, appended cs p)"
    and q: "quiet cs" by blast
  have skip: "(\<forall>p. offer_loop w (s # ss) p = (b, appended (LocatorCount s # cs) p))
        \<and> quiet (LocatorCount s # cs)"
    if "count_result w s = Inl e \<or> count_result w s = Inr 0" for e
    using that ih q by (auto simp add: ops quiet_simps listener_call_simps)
  show ?case
  proof (cases "count_result w s")
    case (Inl e)
    with skip show ?thesis by blast
  next
    case (Inr n)
    show ?thesis
    proof (cases "n = 0")
      case True
      with Inr skip show ?thesis by blast
    next
      case False
      have "(\<forall>p. offer_loop w (s # ss) p = (True, appended [LocatorCount s] p))
          \<and> quiet [LocatorCount s]"
        using Inr False by (simp add: ops quiet_simps listener_call_simps)
      then show ?thesis by blast
    qed
  qed
qed

lemma re_search_sheerid_nonempty: "re_search_sheerid s = Some l \<Longrightarrow> l \<noteq> []"
  by (induction s rule: re_search_sheerid.induct) (auto simp: Let_def split: if_splits)

lemma extract_from_content_shape:
  "\<exists>r cs. (\<forall>p. extract_from_content w p = (r, appended cs p)) \<and> quiet cs
     \<and> r \<noteq> Inr (Some [])"
proof (cases "content_result w")
  case (Inl e)
  have "(\<forall>p. extract_from_content w p = (Inl e, appended [Content] p)) \<and> quiet [Content]
      \<and> Inl e \<noteq> (Inr (Some []) :: exn + string option)"
    using Inl by (simp add: extract_from_content_def ops quiet_simps listener_call_simps)
  then show ?thesis by blast
next
  case (Inr content)
  have "(\<forall>p. extract_from_content w p = (Inr (re_search_sheerid content), appended [Content] p))
      \<and> quiet [Content] \<and> Inr (re_search_sheerid content) \<noteq> (Inr (Some []) :: exn + string option)"
    using Inr re_search_sheerid_nonempty [of content "[]"]
    by (auto simp add: extract_from_content_def ops quiet_simps listener_call_simps)
  then show ?thesis by blast
qed

lemma extract_try_shape:
  "\<exists>r cs. (\<forall>p. extract_sheerid_link_try w p = (r, appended cs p)) \<and> quiet cs
     \<and> r \<noteq> Inr (Some [])"
proof -
  obtain r cs where c: "\<forall>p. extract_from_content w p = (r, appended cs p)"
    and q: "quiet cs" and ne: "r \<noteq> Inr (Some [])"
    using extract_from_content_shape by blast
  let ?sel = \<open>''a[href*="sheerid.com"]''\<close>
  consider (a) e where "count_result w ?sel = Inl e"
    | (b) "count_result w ?sel = Inr 0"
    | (c) n e where "count_result w ?sel = Inr n" "n > 0" "href_result w = Inl e"
    | (d) n h where "count_result w ?sel = Inr n" "n > 0" "href_result w = Inr h" "truthy h"
    | (e) n h where "count_result w ?sel = Inr n" "n > 0" "href_result w = Inr h" "\<not> truthy h"
    by (cases "count_result w ?sel"; cases "href_result w") auto
  then show ?thesis
  proof cases
    case a
    have "(\<forall>p. extract_sheerid_link_try w p = (Inl e, appended [LocatorCount ?sel] p))
      \<and> quiet [LocatorCount ?sel] \<and> Inl e \<noteq> (Inr (Some []) :: exn + string option)"
      using a by (simp add: extract_sheerid_link_try_def ops quiet_simps listener_call_simps)
    then show ?thesis by blast
  next
    case b
    have "(\<forall>p. extract_sheerid_link_try w p = (r, appended (LocatorCount ?sel # cs) p))
      \<and> quiet (LocatorCount ?sel # cs) \<and> r \<noteq> Inr (Some [])"
      using b c q ne by (simp add: extract_sheerid_link_try_def ops quiet_simps listener_call_simps)
    then show ?thesis by blast
  next
    case c
    have "(\<forall>p. extract_sheerid_link_try w p
             = (Inl e, appended [LocatorCount ?sel, GetAttribute ?sel ''href''] p))
      \<and> quiet [LocatorCount ?sel, GetAttribute ?sel ''href'']
      \<and> Inl e \<noteq> (Inr (Some []) :: exn + string option)"
      using c by (simp add: extract_sheerid_link_try_def ops quiet_simps listener_call_simps)
    then show ?thesis by blast
  next
    case d
    have "(\<forall>p. extract_sheerid_link_try w p
             = (Inr h, appended [LocatorCount ?sel, GetAttribute ?sel ''href''] p))
      \<and> quiet [LocatorCount ?sel, GetAttribute ?sel ''href'']
      \<and> Inr h \<noteq> (Inr (Some []) :: exn + string option)"
      using d by (auto simp add: extract_sheerid_link_try_def ops quiet_simps listener_call_simps truthy_def)
    then show ?thesis by blast
  next
    case e
    have "(\<forall>p. extract_sheerid_link_try w p
             = (r, appended ([LocatorCount ?sel, GetAttribute ?sel ''href''] @ cs) p))
      \<and> quiet ([LocatorCount ?sel, GetAttribute ?sel ''href''] @ cs)
      \<and> r \<noteq> Inr (Some [])"
      using e c q ne by (simp add: extract_sheerid_link_try_def ops quiet_simps listener_call_simps)
    then show ?thesis by blast
  qed
qed

lemma extract_shape:
  "\<exists>l cs. (\<forall>p. extract_sheerid_link w p = (Inr l, appended cs p)) \<and> quiet cs
     \<and> l \<noteq> Some []"
proof -
  obtain r cs where c: "\<forall>p. extract_sheerid_link_try w p = (r, appended cs p)"
    and q: "quiet cs" and ne: "r \<noteq> Inr (Some [])"
    using extract_try_shape by blast
  show ?thesis
  proof (cases r)
    case (Inl e)
    have "(\<forall>p. extract_sheerid_link w p = (Inr None, appended cs p)) \<and> quiet cs \<and> None \<noteq> Some ''''"
      using Inl c q by (simp add: extract_sheerid_link_def)
    then show ?thesis by blast
  next
    case (Inr l)
    have "(\<forall>p. extract_sheerid_link w p = (Inr l, appended cs p)) \<and> quiet cs \<and> l \<noteq> Some ''''"
      using Inr c q ne by (simp add: extract_sheerid_link_def)
    then show ?thesis by blast
  qed
qed

lemma marker_cases:
  fixes w :: world and l :: "string option"
  assumes a: "\<And>e. count_result w pend = Inl e \<Longrightarrow> thesis"
    and b: "\<And>n. count_result w pend = Inr n \<Longrightarrow> n > 0 \<Longrightarrow> thesis"
    and c: "\<And>e. count_result w pend = Inr 0 \<Longrightarrow> count_result w ver = Inl e \<Longrightarrow> thesis"
    and d: "\<And>n. count_result w pend = Inr 0 \<Longrightarrow> count_result w ver = Inr n \<Longrightarrow> n > 0 \<Longrightarrow> thesis"
    and e: "count_result w pend = Inr 0 \<Longrightarrow> count_result w ver = Inr 0 \<Longrightarrow> truthy l \<Longrightarrow> thesis"
    and f: "count_result w pend = Inr 0 \<Longrightarrow> count_result w ver = Inr 0 \<Longrightarrow> \<not> truthy l \<Longrightarrow> thesis"
  shows thesis
  using assms by (cases "count_result w pend"; cases "count_result w ver") (metis neq0_conv)+

lemma detect_shape:
  \<open>\<exists>st l cs. (\<forall>p. detect_page_elements w p = (Inr (st, l), appended cs p)) \<and> quiet cs
     \<and> (st = ''link_ready'' \<or> st = ''verified'' \<or> st = ''ineligible'')
     \<and> (l \<noteq> None \<longrightarrow> st = ''link_ready'')
     \<and> (st = ''link_ready'' \<and> l = None \<longrightarrow> (\<exists>n>0. count_result w ''[jsname="hSRGPd"]'' = Inr n))\<close>
proof -
  let ?P = \<open>\<lambda>st l cs. (\<forall>p. detect_page_elements w p = (Inr (st, l), appended cs p)) \<and> quiet cs
     \<and> (st = ''link_ready'' \<or> st = ''verified'' \<or> st = ''ineligible'')
     \<and> (l \<noteq> None \<longrightarrow> st = ''link_ready'')
     \<and> (st = ''link_ready'' \<and> l = None \<longrightarrow> (\<exists>n>0. count_result w ''[jsname="hSRGPd"]'' = Inr n))\<close>
  let ?pend = \<open>''[jsname="hSRGPd"]''\<close>
  let ?ver = \<open>''[jsname="V67aGc"]''\<close>
  obtain l ce where ex: "\<forall>p. extract_sheerid_link w p = (Inr l, appended ce p)"
    and qe: "quiet ce" and ne: "l \<noteq> Some []"
    using extract_shape by blast
  obtain b co where off: "\<forall>p. offer_loop w offer_selectors p = (b, appended co p)"
    and qo: "quiet co"
    using offer_loop_shape by blast
  note defs = detect_page_elements_def detect_page_elements_try_def ops quiet_simps
    listener_call_simps
  show ?thesis
  proof (rule marker_cases [of w ?pend _ ?ver l])
    fix e assume a: "count_result w ?pend = Inl e"
    have "?P ''ineligible'' None [LocatorCount ?pend]"
      using a by (simp add: defs)
    then show ?thesis by - (intro exI, assumption)
  next
    fix n assume b: "count_result w ?pend = Inr n" "n > 0"
    have "?P ''link_ready'' l (LocatorCount ?pend # ce)"
      using b ex qe by (simp add: defs)
    then show ?thesis by - (intro exI, assumption)
  next
    fix e assume c: "count_result w ?pend = Inr 0" "count_result w ?ver = Inl e"
    have "?P ''ineligible'' None [LocatorCount ?pend, LocatorCount ?ver]"
      using c by (simp add: defs)
    then show ?thesis by - (intro exI, assumption)
  next
    fix n assume d: "count_result w ?pend = Inr 0" "count_result w ?ver = Inr n" "n > 0"
    have "?P ''verified'' None [LocatorCount ?pend, LocatorCount ?ver]"
      using d by (simp add: defs)
    then show ?thesis by - (intro exI, assumption)
  next
    assume e: "count_result w ?pend = Inr 0" "count_result w ?ver = Inr 0" "truthy l"
    from e(3) obtain x where lx: "l = Some x" by (cases l) (simp_all add: truthy_def)
    have "?P ''link_ready'' l ([LocatorCount ?pend, LocatorCount ?ver] @ ce)"
      using e ex qe lx by (simp add: defs)
    then show ?thesis by - (intro exI, assumption)
  next
    assume f: "count_result w ?pend = Inr 0" "count_result w ?ver = Inr 0" "\<not> truthy l"
    have "?P (if b then ''verified'' else ''ineligible'') None
            ([LocatorCount ?pend, LocatorCount ?ver] @ ce @ co)"
      using f ex qe off qo by (simp add: defs)
    then show ?thesis by - (intro exI, assumption)
  qed
qed

lemma parse_api_response_values:
  "parse_api_response d = Some st \<Longrightarrow> st = ''subscribed_antigravity'' \<or> st = ''subscribed''"
  by (auto simp: parse_api_response_def split: if_splits)

lemma wait_for_event_eq:
  "wait_for_event w c p =
     (if response_received (if response_received c then c else deliver (wait_responses w) c)
      then Inr () else Inl AsyncioTimeoutError,
      if response_received c then c else deliver (wait_responses w) c,
      appended [WaitForEvent] p)"
  by (simp add: wait_for_event_def Let_def called_appended)

lemma api_status_eq:
  "api_status w =
     (let c3 = captured w in
      case (if truthy (api_response_data c3)
            then (case api_response_data c3 of Some d \<Rightarrow> parse_api_response d | None \<Rightarrow> None)
            else None) of
        Some status \<Rightarrow> if status \<noteq> [] then Some status else None
      | None \<Rightarrow> None)"
proof (cases "api_response_data (captured w)")
  case None
  then show ?thesis by (simp add: api_status_def truthy_def)
next
  case (Some d)
  show ?thesis
  proof (cases "parse_api_response d")
    case None
    with Some show ?thesis by (simp add: api_status_def truthy_def)
  next
    case (Some st)
    then have "st \<noteq> []" using parse_api_response_values [of d st] by auto
    with Some \<open>api_response_data (captured w) = Some d\<close> show ?thesis
      by (simp add: api_status_def truthy_def)
  qed
qed

lemma check_try_eq:
  fixes w :: world
  defines "u \<equiv> ''https://one.google.com/ai-student?g1_landing_page=75''"
  defines "c0 \<equiv> \<lparr>api_response_data = None, response_received = False\<rparr>"
  defines "pre \<equiv> [Goto u, WaitForEvent, WaitForLoadState ''networkidle'']"
  shows "check_google_one_status_v2_try w c0 p =
     (case goto_result w u of
        Inl e \<Rightarrow> (Inl e, appended [Goto u] p)
      | Inr _ \<Rightarrow>
          (case idle_result w of
             Inl e \<Rightarrow> (Inl e, appended pre p)
           | Inr _ \<Rightarrow>
               (case api_status w of
                  Some st \<Rightarrow> (Inr (st, None), appended pre p)
                | None \<Rightarrow> detect_page_elements w (appended pre p))))"
proof (cases "goto_result w u")
  case (Inl e)
  then show ?thesis
    unfolding u_def by (simp add: check_google_one_status_v2_try_def page_goto_def called_appended)
next
  case g: (Inr x)
  show ?thesis
  proof (cases "idle_result w")
    case (Inl e)
    with g show ?thesis
      unfolding u_def pre_def
      by (simp add: check_google_one_status_v2_try_def page_goto_def wait_for_event_eq
          wait_for_load_state_def called_appended appended_appended)
  next
    case i: (Inr y)
    have "check_google_one_status_v2_try w c0 p =
        (case api_status w of
           Some st \<Rightarrow> (Inr (st, None), appended pre p)
         | None \<Rightarrow> detect_page_elements w (appended pre p))"
      using g i unfolding u_def pre_def c0_def api_status_eq
      by (simp add: check_google_one_status_v2_try_def page_goto_def wait_for_event_eq
          wait_for_load_state_def called_appended appended_appended captured_def Let_def
          split: option.splits)
    with g i show ?thesis by simp
  qed
qed

lemma returned_simps:
  "on_result w = Inl e \<Longrightarrow> returned w r = Inl e"
  "on_result w = Inr x \<Longrightarrow> remove_result w = Inl e \<Longrightarrow> returned w r = Inl e"
  "on_result w = Inr x \<Longrightarrow> remove_result w = Inr y \<Longrightarrow> returned w r = r"
  by (simp_all add: returned_def)

lemma listener_round_trip:
  "page_remove_listener w ev
     (appended cs
        (called (On ev) (p\<lparr>listeners := (listeners p)(ev := Suc (listeners p ev))\<rparr>)))
     = (remove_result w, appended (On ev # cs @ [RemoveListener ev]) p)"
  by (simp add: page_remove_listener_def appended_def called_def)

lemma check_unregistered:
  assumes "on_result w = Inl e"
  shows "check_google_one_status_v2 w p = (Inl e, appended [On ''response''] p)"
  using assms by (simp add: check_google_one_status_v2_def page_on_def called_appended)

lemma finally_eq:
  "(case (remove_result w, p') of
      (Inl e, p2) \<Rightarrow> (Inl e, p2)
    | (Inr u, p2) \<Rightarrow> (Inr v, p2))
   = ((case remove_result w of Inl e \<Rightarrow> Inl e | Inr u \<Rightarrow> Inr v), p')"
  by (cases "remove_result w") simp_all

lemma check_shape:
  assumes on: "on_result w = Inr x"
  shows \<open>\<exists>st l cs.
     (\<forall>p. check_google_one_status_v2 w p
        = (returned w (Inr (st, l)),
           appended (On ''response'' # cs @ [RemoveListener ''response'']) p))
     \<and> quiet cs
     \<and> (st = ''subscribed_antigravity'' \<or> st = ''subscribed'' \<or> st = ''link_ready''
          \<or> st = ''verified'' \<or> st = ''ineligible'' \<or> st = ''error'')\<close>
proof -
  let ?P = \<open>\<lambda>st l cs.
     (\<forall>p. check_google_one_status_v2 w p
        = (returned w (Inr (st, l)),
           appended (On ''response'' # cs @ [RemoveListener ''response'']) p))
     \<and> quiet cs
     \<and> (st = ''subscribed_antigravity'' \<or> st = ''subscribed'' \<or> st = ''link_ready''
          \<or> st = ''verified'' \<or> st = ''ineligible'' \<or> st = ''error'')\<close>
  let ?u = "''https://one.google.com/ai-student?g1_landing_page=75''"
  let ?pre = "[Goto ?u, WaitForEvent, WaitForLoadState ''networkidle'']"
  note defs = check_google_one_status_v2_def page_on_def check_try_eq listener_round_trip
    finally_eq returned_def quiet_simps listener_call_simps
  show ?thesis
  proof (cases "goto_result w ?u")
    case (Inl e)
    have "?P ''error'' None [Goto ?u]"
      using on Inl by (cases "remove_result w") (simp_all add: defs)
    then show ?thesis by - (intro exI, assumption)
  next
    case g: (Inr y)
    show ?thesis
    proof (cases "idle_result w")
      case (Inl e)
      have "?P ''error'' None ?pre"
        using on g Inl by (cases "remove_result w") (simp_all add: defs)
      then show ?thesis by - (intro exI, assumption)
    next
      case i: (Inr z)
      show ?thesis
      proof (cases "api_status w")
        case (Some st)
        then have "st = ''subscribed_antigravity'' \<or> st = ''subscribed''"
          by (auto simp: api_status_def dest: parse_api_response_values
              split: option.splits if_splits)
        then have "?P st None ?pre"
          using on g i Some by (elim disjE; cases "remove_result w") (simp_all add: defs)
        then show ?thesis by - (intro exI, assumption)
      next
        case None
        from detect_shape [of w] obtain st l cs
          where d: "\<forall>p. detect_page_elements w p = (Inr (st, l), appended cs p)"
            and q: "quiet cs"
            and v: "st = ''link_ready'' \<or> st = ''verified'' \<or> st = ''ineligible''"
          by (elim exE conjE) (rule that; assumption)
        have "?P st l (?pre @ cs)"
          using on g i None d q v
          by (elim disjE; cases "remove_result w") (simp_all add: defs appended_appended)
        then show ?thesis by - (intro exI, assumption)
      qed
    qed
  qed
qed

lemma check_listeners: "listeners (snd (check_google_one_status_v2 w p)) = listeners p"
proof (cases "on_result w")
  case (Inl e)
  then show ?thesis by (simp add: check_unregistered appended_def)
next
  case (Inr x)
  from check_shape [OF Inr] show ?thesis
    by (elim exE conjE) (simp add: appended_def)
qed

lemma check_not_quiet:
  "\<not> quiet (drop (length (calls q)) (calls (snd (check_google_one_status_v2 w q))))"
proof (cases "on_result w")
  case (Inl e)
  then show ?thesis
    by (simp add: check_unregistered appended_def quiet_simps listener_call_simps)
next
  case (Inr x)
  from check_shape [OF Inr] show ?thesis
    by (elim exE conjE) (simp add: appended_def quiet_simps listener_call_simps)
qed

lemma detect_page_independent:
  "fst (detect_page_elements w p) = fst (detect_page_elements w q)"
proof -
  from detect_shape [of w] show ?thesis
    by (elim exE conjE) simp
qed

section \<open>Results of the operations\<close>

lemma avatar_loop_iff:
  "fst (avatar_loop w ss p) \<longleftrightarrow> (\<exists>s\<in>set ss. \<exists>u. visible_result w s = Inr u)"
proof (induction ss arbitrary: p)
  case Nil
  show ?case by simp
next
  case (Cons s ss)
  show ?case
  proof (cases "visible_result w s")
    case (Inl e)
    with Cons [of "called (ExpectVisible s) p"] show ?thesis
      by (simp add: expect_visible_def)
  next
    case (Inr u)
    then show ?thesis by (simp add: expect_visible_def)
  qed
qed

lemma offer_loop_iff:
  "fst (offer_loop w ss p) \<longleftrightarrow> (\<exists>s\<in>set ss. \<exists>n>0. count_result w s = Inr n)"
proof (induction ss arbitrary: p)
  case Nil
  show ?case by simp
next
  case (Cons s ss)
  show ?case
  proof (cases "count_result w s")
    case (Inl e)
    with Cons [of "called (LocatorCount s) p"] show ?thesis
      by (simp add: locator_count_def)
  next
    case (Inr n)
    with Cons [of "called (LocatorCount s) p"] show ?thesis
      by (cases "n = 0") (simp_all add: locator_count_def)
  qed
qed

lemma login_result:
  "fst (check_google_login_by_avatar w p) =
     Inr ((\<exists>u. goto_result w ''https://accounts.google.com/'' = Inr u)
          \<and> (\<exists>s\<in>set avatar_selectors. \<exists>u. visible_result w s = Inr u))"
proof (cases "goto_result w ''https://accounts.google.com/''")
  case (Inl e)
  then show ?thesis
    by (simp add: check_google_login_by_avatar_def check_google_login_by_avatar_try_def
        page_goto_def)
next
  case (Inr u)
  have "fst (check_google_login_by_avatar w p)
      = Inr (fst (avatar_loop w avatar_selectors
                   (called (Goto ''https://accounts.google.com/'') p)))"
    using Inr
    by (simp add: check_google_login_by_avatar_def check_google_login_by_avatar_try_def
        page_goto_def split: prod.splits)
  with Inr show ?thesis by (simp add: avatar_loop_iff)
qed

lemma full_not_logged_in:
  assumes "fst (check_google_login_by_avatar w p) = Inr False"
  shows "full_google_detection w p
     = (Inr (False, ''not_logged_in'', None), snd (check_google_login_by_avatar w p))"
  using assms
  by (cases "check_google_login_by_avatar w p") (simp add: full_google_detection_def)

lemma appended_listeners: "listeners (appended cs p) = listeners p"
  by (simp add: appended_def)

lemma appended_calls: "calls (appended cs p) = calls p @ cs"
  by (simp add: appended_def)

lemma is_on_login_page_total: "\<exists>b. fst (is_on_login_page w p) = Inr b"
  by (cases "url_result w") (auto simp add: is_on_login_page_def page_url_def)

lemma handle_response_eq:
  "handle_response r c =
     (if captures r then c\<lparr>api_response_data := Some (body_of r), response_received := True\<rparr>
      else c)"
  by (cases "resp_text r") (simp_all add: handle_response_def captures_def body_of_def)

lemma deliver_snoc: "deliver (rs @ [r]) c = handle_response r (deliver rs c)"
  by (simp add: deliver_def)

lemma rule_one_shape:
  assumes \<open>count_result w ''[jsname="hSRGPd"]'' = Inr n\<close> and "0 < n"
  shows \<open>detect_page_elements w p =
     (Inr (''link_ready'',
           case fst (extract_sheerid_link w (called (LocatorCount ''[jsname="hSRGPd"]'') p)) of
             Inr l \<Rightarrow> l | Inl e \<Rightarrow> None),
      snd (extract_sheerid_link w (called (LocatorCount ''[jsname="hSRGPd"]'') p)))\<close>
proof -
  from extract_shape [of w] obtain l ce
    where ex: "\<forall>p. extract_sheerid_link w p = (Inr l, appended ce p)"
    by (elim exE conjE) (rule that; assumption)
  show ?thesis
    using assms ex
    by (simp add: detect_page_elements_def detect_page_elements_try_def locator_count_def)
qed

lemma extract_calls:
  \<open>\<exists>cs. snd (extract_sheerid_link w p) = appended cs p
     \<and> list_all (\<lambda>c. c = LocatorCount ''a[href*="sheerid.com"]''
                    \<or> c = GetAttribute ''a[href*="sheerid.com"]'' ''href'' \<or> c = Content) cs\<close>
proof -
  let ?a = \<open>''a[href*="sheerid.com"]''\<close>
  let ?ok = \<open>\<lambda>c. c = LocatorCount ?a \<or> c = GetAttribute ?a ''href'' \<or> c = Content\<close>
  let ?P = "\<lambda>cs. snd (extract_sheerid_link w p) = appended cs p \<and> list_all ?ok cs"
  have content: "snd (extract_from_content w q) = appended [Content] q" for q
    by (cases "content_result w")
      (simp_all add: extract_from_content_def page_content_def called_appended)
  have snd_ex: "snd (extract_sheerid_link w p) = snd (extract_sheerid_link_try w p)"
    by (cases "extract_sheerid_link_try w p"; cases "fst (extract_sheerid_link_try w p)")
      (simp_all add: extract_sheerid_link_def)
  show ?thesis
  proof (cases "count_result w ?a")
    case (Inl e)
    have "?P [LocatorCount ?a]"
      using Inl by (simp add: snd_ex extract_sheerid_link_try_def ops)
    then show ?thesis by - (intro exI, assumption)
  next
    case c: (Inr k)
    show ?thesis
    proof (cases "k = 0")
      case True
      have "?P [LocatorCount ?a, Content]"
        using c True by (simp add: snd_ex extract_sheerid_link_try_def ops content)
      then show ?thesis by - (intro exI, assumption)
    next
      case False
      show ?thesis
      proof (cases "href_result w")
        case (Inl e)
        have "?P [LocatorCount ?a, GetAttribute ?a ''href'']"
          using c False Inl by (simp add: snd_ex extract_sheerid_link_try_def ops)
        then show ?thesis by - (intro exI, assumption)
      next
        case h: (Inr href)
        show ?thesis
        proof (cases "truthy href")
          case True
          have "?P [LocatorCount ?a, GetAttribute ?a ''href'']"
            using c False h True by (simp add: snd_ex extract_sheerid_link_try_def ops)
          then show ?thesis by - (intro exI, assumption)
        next
          case f: False
          have "?P [LocatorCount ?a, GetAttribute ?a ''href'', Content]"
            using c False h f by (simp add: snd_ex extract_sheerid_link_try_def ops content)
          then show ?thesis by - (intro exI, assumption)
        qed
      qed
    qed
  qed
qed

lemma check_result:
  "fst (check_google_one_status_v2 w p) =
     returned w
       (case goto_result w ''https://one.google.com/ai-student?g1_landing_page=75'' of
          Inl e \<Rightarrow> Inr (''error'', None)
        | Inr _ \<Rightarrow>
            (case idle_result w of
               Inl e \<Rightarrow> Inr (''error'', None)
             | Inr _ \<Rightarrow>
                 (case api_status w of
                    Some st \<Rightarrow> Inr (st, None)
                  | None \<Rightarrow> fst (detect_page_elements w q))))"
proof (cases "on_result w")
  case (Inl e)
  then show ?thesis by (simp add: check_unregistered returned_def)
next
  case on: (Inr x)
  from detect_shape [of w] obtain st l cs
    where d: "\<forall>p. detect_page_elements w p = (Inr (st, l), appended cs p)"
    by (elim exE conjE) (rule that; assumption)
  show ?thesis
    using on
    by (cases "goto_result w ''https://one.google.com/ai-student?g1_landing_page=75''";
        cases "idle_result w"; cases "api_status w"; cases "remove_result w")
      (simp_all add: check_google_one_status_v2_def page_on_def check_try_eq d
        page_remove_listener_def returned_def)
qed

lemma check_calls:
  assumes on: "on_result w = Inr x0"
    and "goto_result w ''https://one.google.com/ai-student?g1_landing_page=75'' = Inr x"
  shows "\<exists>cs. calls (snd (check_google_one_status_v2 w p))
     = calls p @ On ''response''
         # Goto ''https://one.google.com/ai-student?g1_landing_page=75''
         # WaitForEvent # WaitForLoadState ''networkidle'' # cs"
proof -
  let ?u = "''https://one.google.com/ai-student?g1_landing_page=75''"
  let ?P = "\<lambda>cs. calls (snd (check_google_one_status_v2 w p))
     = calls p @ On ''response'' # Goto ?u # WaitForEvent # WaitForLoadState ''networkidle'' # cs"
  note defs = check_google_one_status_v2_def page_on_def check_try_eq listener_round_trip
    finally_eq appended_calls
  from detect_shape [of w] obtain st l cs
    where d: "\<forall>p. detect_page_elements w p = (Inr (st, l), appended cs p)"
    by (elim exE conjE) (rule that; assumption)
  show ?thesis
  proof (cases "idle_result w")
    case (Inl e)
    have "?P [RemoveListener ''response'']"
      using assms Inl by (cases "remove_result w") (simp_all add: defs)
    then show ?thesis by - (intro exI, assumption)
  next
    case i: (Inr y)
    show ?thesis
    proof (cases "api_status w")
      case (Some s)
      have "?P [RemoveListener ''response'']"
        using assms i Some by (cases "remove_result w") (simp_all add: defs)
      then show ?thesis by - (intro exI, assumption)
    next
      case None
      have "?P (cs @ [RemoveListener ''response''])"
        using assms i None d by (cases "remove_result w") (simp_all add: defs appended_appended)
      then show ?thesis by - (intro exI, assumption)
    qed
  qed
qed

lemma api_status_values:
  "api_status w = Some st \<Longrightarrow> st = ''subscribed_antigravity'' \<or> st = ''subscribed''"
  by (auto simp: api_status_def dest: parse_api_response_values split: option.splits if_splits)

lemma classified_not_error:
  "(case api_status w of Some st \<Rightarrow> Inr (st, None)
    | None \<Rightarrow> fst (detect_page_elements w q)) \<noteq> (Inr (''error'', l) :: exn + string \<times> string option)"
proof (cases "api_status w")
  case (Some st)
  with api_status_values [OF Some] show ?thesis by auto
next
  case None
  from detect_shape [of w] obtain st l' cs
    where d: "\<forall>p. detect_page_elements w p = (Inr (st, l'), appended cs p)"
      and v: "st = ''link_ready'' \<or> st = ''verified'' \<or> st = ''ineligible''"
    by (elim exE conjE) (rule that; assumption)
  from v None d show ?thesis by (elim disjE) simp_all
qed

lemma detect_result:
  \<open>fst (detect_page_elements w p) =
     (case count_result w ''[jsname="hSRGPd"]'' of
        Inl e \<Rightarrow> Inr (''ineligible'', None)
      | Inr n1 \<Rightarrow>
          if n1 > 0 then
            Inr (''link_ready'', case fst (extract_sheerid_link w q) of Inr l \<Rightarrow> l | Inl e \<Rightarrow> None)
          else
            (case count_result w ''[jsname="V67aGc"]'' of
               Inl e \<Rightarrow> Inr (''ineligible'', None)
             | Inr n2 \<Rightarrow>
                 if n2 > 0 then Inr (''verified'', None)
                 else
                   (case fst (extract_sheerid_link w q) of
                      Inr (Some l) \<Rightarrow> Inr (''link_ready'', Some l)
                    | _ \<Rightarrow>
                        if (\<exists>s\<in>set offer_selectors. \<exists>n>0. count_result w s = Inr n)
                        then Inr (''verified'', None)
                        else Inr (''ineligible'', None))))\<close>
proof -
  let ?pend = \<open>''[jsname="hSRGPd"]''\<close>
  let ?ver = \<open>''[jsname="V67aGc"]''\<close>
  from extract_shape [of w] obtain l ce
    where ex: "\<forall>p. extract_sheerid_link w p = (Inr l, appended ce p)"
      and ne: "l \<noteq> Some []"
    by (elim exE conjE) (rule that; assumption)
  from offer_loop_shape [of w offer_selectors] obtain b co
    where off: "\<forall>p. offer_loop w offer_selectors p = (b, appended co p)"
    by (elim exE conjE) (rule that; assumption)
  from off have "fst (offer_loop w offer_selectors p) = b" by simp
  then have b: "b \<longleftrightarrow> (\<exists>s\<in>set offer_selectors. \<exists>n>0. count_result w s = Inr n)"
    by (simp add: offer_loop_iff)
  note defs = detect_page_elements_def detect_page_elements_try_def locator_count_def
  show ?thesis
  proof (rule marker_cases [of w ?pend _ ?ver l])
    fix e assume "count_result w ?pend = Inl e"
    then show ?thesis by (simp add: defs)
  next
    fix n assume "count_result w ?pend = Inr n" "n > 0"
    then show ?thesis using ex by (simp add: defs)
  next
    fix e assume "count_result w ?pend = Inr 0" "count_result w ?ver = Inl e"
    then show ?thesis by (simp add: defs)
  next
    fix n assume "count_result w ?pend = Inr 0" "count_result w ?ver = Inr n" "n > 0"
    then show ?thesis by (simp add: defs)
  next
    assume a: "count_result w ?pend = Inr 0" "count_result w ?ver = Inr 0" "truthy l"
    from a(3) obtain x where "l = Some x" by (cases l) (simp_all add: truthy_def)
    with a ex show ?thesis by (simp add: defs)
  next
    assume a: "count_result w ?pend = Inr 0" "count_result w ?ver = Inr 0" "\<not> truthy l"
    from a(3) ne have "l = None" by (cases l) (simp_all add: truthy_def)
    with a ex off b show ?thesis by (simp add: defs)
  qed
qed

lemma extract_absorbs:
  assumes "fst (extract_sheerid_link_try w q) = Inl e"
  shows "fst (extract_sheerid_link w q) = Inr None"
  using assms by (cases "extract_sheerid_link_try w q") (simp add: extract_sheerid_link_def)

lemma extract_total: "\<exists>l. fst (extract_sheerid_link w q) = Inr l"
proof -
  from extract_shape [of w] show ?thesis
    by (elim exE conjE) simp
qed

lemma detect_evidence:
  assumes "fst (detect_page_elements w p) = Inr (st, l)"
  shows \<open>(l \<noteq> None \<longrightarrow> st = ''link_ready'')
     \<and> (st = ''link_ready'' \<longrightarrow> fst (extract_sheerid_link w q) = Inr l)
     \<and> (st = ''link_ready'' \<and> l = None
          \<longrightarrow> (\<exists>n>0. count_result w ''[jsname="hSRGPd"]'' = Inr n))\<close>
proof -
  let ?pend = \<open>''[jsname="hSRGPd"]''\<close>
  let ?ver = \<open>''[jsname="V67aGc"]''\<close>
  from extract_shape [of w] obtain l0 ce
    where ex: "\<forall>p. extract_sheerid_link w p = (Inr l0, appended ce p)"
    by (elim exE conjE) (rule that; assumption)
  note r = detect_result [of w p q]
  show ?thesis
  proof (rule marker_cases [of w ?pend _ ?ver l0])
    fix e assume "count_result w ?pend = Inl e"
    with r assms show ?thesis by simp
  next
    fix n assume "count_result w ?pend = Inr n" "n > 0"
    with r assms ex show ?thesis by auto
  next
    fix e assume "count_result w ?pend = Inr 0" "count_result w ?ver = Inl e"
    with r assms show ?thesis by simp
  next
    fix n assume "count_result w ?pend = Inr 0" "count_result w ?ver = Inr n" "n > 0"
    with r assms show ?thesis by simp
  next
    assume a: "count_result w ?pend = Inr 0" "count_result w ?ver = Inr 0" "truthy l0"
    from a(3) obtain y where "l0 = Some y" by (cases l0) (simp_all add: truthy_def)
    with r assms ex a show ?thesis by simp
  next
    assume a: "count_result w ?pend = Inr 0" "count_result w ?ver = Inr 0" "\<not> truthy l0"
    show ?thesis
    proof (cases l0)
      case None
      with r assms ex a show ?thesis
        by (cases "\<exists>s\<in>set offer_selectors. \<exists>n>0. count_result w s = Inr n") simp_all
    next
      case (Some y)
      with r assms ex a show ?thesis by simp
    qed
  qed
qed

lemma check_evidence:
  assumes "fst (check_google_one_status_v2 w p) = Inr (st, l)"
  shows \<open>(l \<noteq> None \<longrightarrow> st = ''link_ready'')
     \<and> (st = ''link_ready'' \<longrightarrow> fst (extract_sheerid_link w q) = Inr l)
     \<and> (st = ''link_ready'' \<and> l = None
          \<longrightarrow> (\<exists>n>0. count_result w ''[jsname="hSRGPd"]'' = Inr n))\<close>
proof -
  let ?u = "''https://one.google.com/ai-student?g1_landing_page=75''"
  from assms obtain x y where on: "on_result w = Inr x" and rm: "remove_result w = Inr y"
    by (cases "on_result w"; cases "remove_result w")
      (simp_all add: check_result [of w p q] returned_def)
  note r = assms [unfolded check_result [of w p q] returned_simps(3) [OF on rm]]
  show ?thesis
  proof (cases "goto_result w ?u")
    case (Inl e)
    with r show ?thesis by auto
  next
    case g: (Inr a)
    show ?thesis
    proof (cases "idle_result w")
      case (Inl e)
      with r g show ?thesis by auto
    next
      case i: (Inr b)
      show ?thesis
      proof (cases "api_status w")
        case (Some s)
        from api_status_values [OF Some] r g i Some show ?thesis by auto
      next
        case None
        with r g i have "fst (detect_page_elements w q) = Inr (st, l)" by simp
        then show ?thesis by (rule detect_evidence)
      qed
    qed
  qed
qed

lemma full_result:
  "fst (full_google_detection w p) =
     (if fst (check_google_login_by_avatar w p) = Inr False
      then Inr (False, ''not_logged_in'', None)
      else (case fst (check_google_one_status_v2 w q) of
              Inl e \<Rightarrow> Inl e
            | Inr (st, l) \<Rightarrow> Inr (True, st, l)))"
proof -
  from login_shape [of w] obtain b lc
    where lg: "\<forall>p. check_google_login_by_avatar w p = (Inr b, appended lc p)"
    by (elim exE conjE) (rule that; assumption)
  have same: "fst (check_google_one_status_v2 w (appended lc p))
      = fst (check_google_one_status_v2 w q)"
    by (simp add: check_result [of w _ q])
  show ?thesis
  proof (cases b)
    case False
    with lg show ?thesis by (simp add: full_google_detection_def)
  next
    case True
    obtain r p' where c: "check_google_one_status_v2 w (appended lc p) = (r, p')"
      by (cases "check_google_one_status_v2 w (appended lc p)")
    with same have "fst (check_google_one_status_v2 w q) = r" by simp
    with lg True c show ?thesis
      by (cases r) (auto simp add: full_google_detection_def)
  qed
qed

lemma full_listeners: "listeners (snd (full_google_detection w p)) = listeners p"
proof -
  from login_shape [of w] obtain b lc
    where lg: "\<forall>p. check_google_login_by_avatar w p = (Inr b, appended lc p)"
    by (elim exE conjE) (rule that; assumption)
  have "listeners (snd (check_google_one_status_v2 w (appended lc p))) = listeners p"
    by (simp add: check_listeners appended_def)
  with lg show ?thesis
    by (cases b; cases "check_google_one_status_v2 w (appended lc p)";
        cases "fst (check_google_one_status_v2 w (appended lc p))")
      (auto simp add: full_google_detection_def appended_def)
qed

lemma full_evidence:
  assumes "fst (full_google_detection w p) = Inr (b, st, l)"
  shows \<open>(l \<noteq> None \<longrightarrow> st = ''link_ready'')
     \<and> (st = ''link_ready'' \<longrightarrow> fst (extract_sheerid_link w q) = Inr l)
     \<and> (st = ''link_ready'' \<and> l = None
          \<longrightarrow> (\<exists>n>0. count_result w ''[jsname="hSRGPd"]'' = Inr n))\<close>
proof (cases "fst (check_google_login_by_avatar w p) = Inr False")
  case True
  with assms show ?thesis by (auto simp add: full_result [of w p q])
next
  case False
  with assms have "fst (check_google_one_status_v2 w q) = Inr (st, l)"
    by (cases "fst (check_google_one_status_v2 w q)")
      (auto simp add: full_result [of w p q])
  then show ?thesis by (rule check_evidence)
qed

lemma offer_loop_first:
  "\<exists>cs. snd (offer_loop w (s # ss) p) = appended (LocatorCount s # cs) p"
proof -
  from offer_loop_shape [of w ss] obtain b cs
    where o: "\<forall>p. offer_loop w ss p = (b, appended cs p)"
    by (elim exE conjE) (rule that; assumption)
  have skip: "snd (offer_loop w (s # ss) p) = appended (LocatorCount s # cs) p"
    if "count_result w s = Inl e \<or> count_result w s = Inr 0" for e
    using that o by (auto simp add: ops)
  show ?thesis
  proof (cases "count_result w s")
    case (Inl e)
    with skip have "snd (offer_loop w (s # ss) p) = appended (LocatorCount s # cs) p" by blast
    then show ?thesis by - (intro exI, assumption)
  next
    case (Inr n)
    show ?thesis
    proof (cases "n = 0")
      case True
      with Inr skip have "snd (offer_loop w (s # ss) p) = appended (LocatorCount s # cs) p"
        by blast
      then show ?thesis by - (intro exI, assumption)
    next
      case False
      with Inr have "snd (offer_loop w (s # ss) p) = appended (LocatorCount s # []) p"
        by (simp add: ops)
      then show ?thesis by - (intro exI, assumption)
    qed
  qed
qed

lemma detect_log_rule_one:
  assumes \<open>count_result w ''[jsname="hSRGPd"]'' = Inl e\<close>
  shows \<open>snd (detect_page_elements w p) = appended [LocatorCount ''[jsname="hSRGPd"]''] p\<close>
  using assms
  by (simp add: detect_page_elements_def detect_page_elements_try_def locator_count_def
      called_appended)

lemma detect_log_rule_two:
  assumes \<open>count_result w ''[jsname="hSRGPd"]'' = Inr 0\<close>
    and \<open>count_result w ''[jsname="V67aGc"]'' = Inl e\<close>
  shows \<open>snd (detect_page_elements w p)
     = appended [LocatorCount ''[jsname="hSRGPd"]'', LocatorCount ''[jsname="V67aGc"]''] p\<close>
  using assms
  by (simp add: detect_page_elements_def detect_page_elements_try_def locator_count_def
      called_appended appended_appended)

lemma detect_log_rule_four:
  assumes \<open>count_result w ''[jsname="hSRGPd"]'' = Inr 0\<close>
    and \<open>count_result w ''[jsname="V67aGc"]'' = Inr 0\<close>
    and "fst (extract_sheerid_link w q) = Inr None"
  shows \<open>\<exists>cs cs'. snd (detect_page_elements w p)
               = appended (LocatorCount ''[jsname="hSRGPd"]''
                    # LocatorCount ''[jsname="V67aGc"]''
                    # cs @ LocatorCount ''button:has-text("Get student offer")'' # cs') p
              \<and> list_all (\<lambda>c. c = LocatorCount ''a[href*="sheerid.com"]''
                    \<or> c = GetAttribute ''a[href*="sheerid.com"]'' ''href''
                    \<or> c = Content) cs\<close>
proof -
  let ?pend = \<open>''[jsname="hSRGPd"]''\<close>
  let ?ver = \<open>''[jsname="V67aGc"]''\<close>
  let ?o1 = \<open>''button:has-text("Get student offer")''\<close>
  let ?ok = \<open>\<lambda>c. c = LocatorCount ''a[href*="sheerid.com"]''
                    \<or> c = GetAttribute ''a[href*="sheerid.com"]'' ''href'' \<or> c = Content\<close>
  let ?p2 = "appended [LocatorCount ?pend, LocatorCount ?ver] p"
  from extract_shape [of w] obtain l0 ce
    where ex: "\<forall>p. extract_sheerid_link w p = (Inr l0, appended ce p)"
    by (elim exE conjE) (rule that; assumption)
  from ex assms(3) have l0: "l0 = None" by simp
  from extract_calls [of w ?p2] obtain cs
    where s: "snd (extract_sheerid_link w ?p2) = appended cs ?p2" and a: "list_all ?ok cs"
    by (elim exE conjE) (rule that; assumption)
  from s ex have "calls (appended ce ?p2) = calls (appended cs ?p2)" by simp
  then have ce: "ce = cs" by (simp add: appended_calls)
  obtain o2 os where os: "offer_selectors = ?o1 # o2 # os"
    by (simp add: offer_selectors_def)
  from offer_loop_first [of w ?o1 "o2 # os" "appended cs ?p2"]
  have "\<exists>cs'. snd (offer_loop w offer_selectors (appended cs ?p2))
        = appended (LocatorCount ?o1 # cs') (appended cs ?p2)"
    unfolding os .
  then obtain cs'
    where f: "snd (offer_loop w offer_selectors (appended cs ?p2))
        = appended (LocatorCount ?o1 # cs') (appended cs ?p2)" ..
  obtain b p4 where o: "offer_loop w offer_selectors (appended cs ?p2) = (b, p4)"
    by (cases "offer_loop w offer_selectors (appended cs ?p2)")
  with f have p4: "p4 = appended (LocatorCount ?o1 # cs') (appended cs ?p2)" by simp
  have "snd (detect_page_elements w p) = p4"
    using assms(1,2) ex l0 ce o
    by (simp add: detect_page_elements_def detect_page_elements_try_def locator_count_def
        called_appended appended_appended truthy_def)
  with p4 have "snd (detect_page_elements w p)
      = appended (LocatorCount ?pend # LocatorCount ?ver # cs @ LocatorCount ?o1 # cs') p"
    by (simp add: appended_appended)
  with a show ?thesis by - (intro exI conjI, assumption, assumption)
qed

section \<open>Verified properties\<close>

text \<open>
  C1. For every payload, the classifier answers \<open>subscribed_antigravity\<close> when the text
  holds a storage marker (one of \<^verbatim>\<open>2 TB\<close>, \<^verbatim>\<open>2TB\<close>, \<^verbatim>\<open>"2 TB"\<close>) and an unlock marker
  (\<^verbatim>\<open>Antigravity\<close> or \<^verbatim>\<open>"Antigravity"\<close>), \<open>subscribed\<close> when it holds a storage marker
  and no unlock marker, and no signal otherwise; an unlock marker alone gives no signal.
\<close>

theorem parse_api_response_classification:
  fixes s :: string
  defines \<open>storage \<equiv> occurs_in ''2 TB'' s \<or> occurs_in ''2TB'' s \<or> occurs_in ''"2 TB"'' s\<close>
  defines \<open>unlock \<equiv> occurs_in ''Antigravity'' s \<or> occurs_in ''"Antigravity"'' s\<close>
  shows "(storage \<and> unlock \<longrightarrow> parse_api_response s = Some ''subscribed_antigravity'')
       \<and> (storage \<and> \<not> unlock \<longrightarrow> parse_api_response s = Some ''subscribed'')
       \<and> (\<not> storage \<longrightarrow> parse_api_response s = None)"
  unfolding storage_def unlock_def
  by (simp add: parse_api_response_def has_2tb_def has_antigravity_def contains_occurs_in)

theorem parse_api_response_classification_witness:
  \<open>occurs_in ''"2 TB"'' ''["2 TB","Antigravity"]''
   \<and> occurs_in ''Antigravity'' ''["2 TB","Antigravity"]''
   \<and> parse_api_response ''["2 TB","Antigravity"]'' = Some ''subscribed_antigravity''
   \<and> occurs_in ''2TB'' ''plan:2TB'' \<and> \<not> occurs_in ''Antigravity'' ''plan:2TB''
   \<and> parse_api_response ''plan:2TB'' = Some ''subscribed''
   \<and> occurs_in ''Antigravity'' ''Antigravity'' \<and> \<not> occurs_in ''2 TB'' ''Antigravity''
   \<and> parse_api_response ''Antigravity'' = None\<close>
proof -
  have a: \<open>occurs_in ''"2 TB"'' ''["2 TB","Antigravity"]''\<close>
    and b: \<open>occurs_in ''Antigravity'' ''["2 TB","Antigravity"]''\<close>
    and c: \<open>occurs_in ''2TB'' ''plan:2TB''\<close>
    and d: \<open>\<not> occurs_in ''Antigravity'' ''plan:2TB''\<close>
    and d': \<open>\<not> occurs_in ''"Antigravity"'' ''plan:2TB''\<close>
    and e: \<open>occurs_in ''Antigravity'' ''Antigravity''\<close>
    and f: \<open>\<not> occurs_in ''2 TB'' ''Antigravity''\<close>
    and f': \<open>\<not> occurs_in ''2TB'' ''Antigravity''\<close>
    and f'': \<open>\<not> occurs_in ''"2 TB"'' ''Antigravity''\<close>
    unfolding contains_occurs_in [symmetric] by simp_all
  from a b parse_api_response_classification [of \<open>''["2 TB","Antigravity"]''\<close>]
  have 1: \<open>parse_api_response ''["2 TB","Antigravity"]'' = Some ''subscribed_antigravity''\<close>
    by blast
  from c d d' parse_api_response_classification [of "''plan:2TB''"]
  have 2: "parse_api_response ''plan:2TB'' = Some ''subscribed''"
    by blast
  from f f' f'' parse_api_response_classification [of "''Antigravity''"]
  have 3: "parse_api_response ''Antigravity'' = None"
    by blast
  from a b c d e f 1 2 3 show ?thesis by blast
qed

text \<open>
  C5. When the login detector answers \<open>False\<close>, the detection returns exactly
  \<open>(False, not_logged_in, None)\<close> and leaves the page as the login detector left it:
  the operations it issued register and remove no handler. The qualification check was
  not run, for every run of it registers a handler and so is not quiet.
\<close>

theorem not_logged_in_short_circuit:
  assumes "fst (check_google_login_by_avatar w p) = Inr False"
  shows "full_google_detection w p
           = (Inr (False, ''not_logged_in'', None), snd (check_google_login_by_avatar w p))
       \<and> (\<exists>cs. snd (full_google_detection w p) = appended cs p \<and> quiet cs)
       \<and> (\<forall>q. \<not> quiet (drop (length (calls q))
                  (calls (snd (check_google_one_status_v2 w q)))))"
proof (intro conjI allI)
  show full: "full_google_detection w p
           = (Inr (False, ''not_logged_in'', None), snd (check_google_login_by_avatar w p))"
    using assms by (rule full_not_logged_in)
  from login_shape [of w] obtain b lc
    where lg: "\<forall>p. check_google_login_by_avatar w p = (Inr b, appended lc p)"
      and q: "quiet lc"
    by (elim exE conjE) (rule that; assumption)
  from lg q full show "\<exists>cs. snd (full_google_detection w p) = appended cs p \<and> quiet cs"
    by auto
  fix q
  show "\<not> quiet (drop (length (calls q)) (calls (snd (check_google_one_status_v2 w q))))"
    by (rule check_not_quiet)
qed

theorem not_logged_in_short_circuit_witness:
  "fst (check_google_login_by_avatar signed_out_world fresh_page) = Inr False
   \<and> fst (full_google_detection signed_out_world fresh_page)
       = Inr (False, ''not_logged_in'', None)
   \<and> listeners (snd (full_google_detection signed_out_world fresh_page)) = listeners fresh_page"
proof -
  have h: "fst (check_google_login_by_avatar signed_out_world fresh_page) = Inr False"
    by code_simp
  from not_logged_in_short_circuit [OF h] h show ?thesis
    by (auto simp: appended_listeners)
qed

text \<open>
  C7. On every path on which the qualification check has registered its handler, it
  registers it first and removes it last, with no other registration or removal in
  between; when the registration itself raises, that call is the only operation and
  nothing was registered. So the page has the same handlers after the check, and after
  the whole detection, as before, however they end.
\<close>

theorem listener_removed_on_every_path:
  "((\<exists>x. on_result w = Inr x) \<longrightarrow>
      (\<exists>r cs. check_google_one_status_v2 w p
          = (r, appended (On ''response'' # cs @ [RemoveListener ''response'']) p)
        \<and> quiet cs))
   \<and> ((\<exists>e. on_result w = Inl e) \<longrightarrow>
        (\<exists>r. check_google_one_status_v2 w p = (r, appended [On ''response''] p)))
   \<and> listeners (snd (check_google_one_status_v2 w p)) = listeners p
   \<and> listeners (snd (full_google_detection w p)) = listeners p"
proof (intro conjI impI)
  assume "\<exists>x. on_result w = Inr x"
  then obtain x where on: "on_result w = Inr x" ..
  from check_shape [OF on] obtain st l cs
    where ck: "\<forall>p. check_google_one_status_v2 w p
        = (returned w (Inr (st, l)),
           appended (On ''response'' # cs @ [RemoveListener ''response'']) p)"
      and q: "quiet cs"
    by (elim exE conjE) (rule that; assumption)
  from ck q show "\<exists>r cs. check_google_one_status_v2 w p
        = (r, appended (On ''response'' # cs @ [RemoveListener ''response'']) p) \<and> quiet cs"
    by - (intro exI conjI, erule spec, assumption)
next
  assume "\<exists>e. on_result w = Inl e"
  then obtain e where "on_result w = Inl e" ..
  then have "check_google_one_status_v2 w p = (Inl e, appended [On ''response''] p)"
    by (rule check_unregistered)
  then show "\<exists>r. check_google_one_status_v2 w p = (r, appended [On ''response''] p)"
    by - (intro exI, assumption)
next
  show "listeners (snd (check_google_one_status_v2 w p)) = listeners p"
    by (rule check_listeners)
  show "listeners (snd (full_google_detection w p)) = listeners p"
    by (rule full_listeners)
qed

theorem listener_removed_on_every_path_witness:
  "listeners (snd (check_google_one_status_v2 offline_world fresh_page)) ''response'' = 0
   \<and> listeners (snd (check_google_one_status_v2 closing_world fresh_page)) ''response'' = 0
   \<and> listeners (snd (full_google_detection crowded_world fresh_page)) ''response'' = 0"
  using listener_removed_on_every_path [of offline_world fresh_page]
    listener_removed_on_every_path [of closing_world fresh_page]
    listener_removed_on_every_path [of crowded_world fresh_page]
  by (simp add: fresh_page_def)

text \<open>
  C6, as stated, fails. With navigation and waits successful and every element query
  raising, the failure inside the qualification check is not mapped to \<open>error\<close>: the
  check answers \<open>ineligible\<close>. And an exception does leave the check when registering
  the listener raises, and when removing it raises, and then it leaves the whole
  detection as well.
\<close>

theorem failures_without_error_status:
  "fst (check_google_one_status_v2 unreadable_dom_world fresh_page)
       = Inr (''ineligible'', None)
   \<and> fst (check_google_one_status_v2 offline_world fresh_page) = Inl PlaywrightError
   \<and> fst (check_google_one_status_v2 closing_world fresh_page) = Inl PlaywrightError
   \<and> fst (full_google_detection closing_world fresh_page) = Inl PlaywrightError"
  by code_simp

text \<open>
  C6, amended. The login detector always returns a boolean, \<open>False\<close> when the
  navigation fails and when no avatar selector becomes visible, and the login-page test
  always returns a boolean. When registering and removing the listener succeed, the
  qualification check returns a pair whose status is one of its six documented values
  and the whole detection returns a triple, whatever the other page operations do; the
  status is \<open>error\<close>, with no link, exactly when the navigation or the network-idle wait
  failed. Failures in the later stages are absorbed there and never give \<open>error\<close>.
\<close>

theorem failures_become_results:
  "(\<exists>b. fst (check_google_login_by_avatar w p) = Inr b)
   \<and> ((\<exists>e. goto_result w ''https://accounts.google.com/'' = Inl e)
        \<longrightarrow> fst (check_google_login_by_avatar w p) = Inr False)
   \<and> ((\<forall>s\<in>set avatar_selectors. \<exists>e. visible_result w s = Inl e)
        \<longrightarrow> fst (check_google_login_by_avatar w p) = Inr False)
   \<and> (\<exists>b. fst (is_on_login_page w p) = Inr b)
   \<and> ((\<exists>x. on_result w = Inr x) \<and> (\<exists>y. remove_result w = Inr y) \<longrightarrow>
        (\<exists>st l. fst (check_google_one_status_v2 w p) = Inr (st, l)
           \<and> (st = ''subscribed_antigravity'' \<or> st = ''subscribed'' \<or> st = ''link_ready''
                \<or> st = ''verified'' \<or> st = ''ineligible'' \<or> st = ''error''))
        \<and> (fst (check_google_one_status_v2 w p) = Inr (''error'', None)
             \<longleftrightarrow> (\<exists>e. goto_result w
                         ''https://one.google.com/ai-student?g1_landing_page=75'' = Inl e)
                  \<or> (\<exists>e. idle_result w = Inl e))
        \<and> (\<forall>l. fst (check_google_one_status_v2 w p) = Inr (''error'', l) \<longrightarrow> l = None)
        \<and> (\<exists>b st l. fst (full_google_detection w p) = Inr (b, st, l)))"
proof (intro conjI impI)
  show "\<exists>b. fst (check_google_login_by_avatar w p) = Inr b"
    by (simp add: login_result)
  show "\<exists>b. fst (is_on_login_page w p) = Inr b"
    by (rule is_on_login_page_total)
next
  assume "\<exists>e. goto_result w ''https://accounts.google.com/'' = Inl e"
  then show "fst (check_google_login_by_avatar w p) = Inr False"
    by (auto simp add: login_result)
next
  assume "\<forall>s\<in>set avatar_selectors. \<exists>e. visible_result w s = Inl e"
  then show "fst (check_google_login_by_avatar w p) = Inr False"
    by (auto simp add: login_result)
next
  let ?u = "''https://one.google.com/ai-student?g1_landing_page=75''"
  assume "(\<exists>x. on_result w = Inr x) \<and> (\<exists>y. remove_result w = Inr y)"
  then obtain x y where on: "on_result w = Inr x" and rm: "remove_result w = Inr y"
    by (elim conjE exE)
  note r = check_result [of w p p, unfolded returned_simps(3) [OF on rm]]
  from check_shape [OF on] obtain st l cs
    where ck: "\<forall>p. check_google_one_status_v2 w p
        = (returned w (Inr (st, l)),
           appended (On ''response'' # cs @ [RemoveListener ''response'']) p)"
      and v: "st = ''subscribed_antigravity'' \<or> st = ''subscribed'' \<or> st = ''link_ready''
          \<or> st = ''verified'' \<or> st = ''ineligible'' \<or> st = ''error''"
    by (elim exE conjE) (rule that; assumption)
  from ck have c: "fst (check_google_one_status_v2 w q) = Inr (st, l)" for q
    by (simp add: returned_simps(3) [OF on rm])
  from c [of p] v
  show "\<exists>st l. fst (check_google_one_status_v2 w p) = Inr (st, l)
           \<and> (st = ''subscribed_antigravity'' \<or> st = ''subscribed'' \<or> st = ''link_ready''
                \<or> st = ''verified'' \<or> st = ''ineligible'' \<or> st = ''error'')"
    by - (intro exI conjI, assumption, assumption)
  show "fst (check_google_one_status_v2 w p) = Inr (''error'', None)
             \<longleftrightarrow> (\<exists>e. goto_result w ?u = Inl e) \<or> (\<exists>e. idle_result w = Inl e)"
    using classified_not_error [of w p None]
    by (cases "goto_result w ?u"; cases "idle_result w") (simp_all add: r)
  show "\<forall>l. fst (check_google_one_status_v2 w p) = Inr (''error'', l) \<longrightarrow> l = None"
  proof (intro allI impI)
    fix l' assume e: "fst (check_google_one_status_v2 w p) = Inr (''error'', l')"
    show "l' = None"
      using classified_not_error [of w p l'] e
      by (cases "goto_result w ?u"; cases "idle_result w") (simp_all add: r)
  qed
  from c [of p] show "\<exists>b st l. fst (full_google_detection w p) = Inr (b, st, l)"
    by (auto simp add: full_result [of w p p])
qed

theorem failures_become_results_witness:
  "fst (check_google_login_by_avatar offline_world fresh_page) = Inr False
   \<and> fst (check_google_login_by_avatar signed_out_world fresh_page) = Inr False
   \<and> fst (check_google_one_status_v2 slow_navigation_world fresh_page) = Inr (''error'', None)
   \<and> fst (check_google_one_status_v2 unreadable_dom_world fresh_page) \<noteq> Inr (''error'', None)
   \<and> (\<exists>b st l. fst (full_google_detection unreadable_dom_world fresh_page) = Inr (b, st, l))"
proof -
  let ?u = "''https://one.google.com/ai-student?g1_landing_page=75''"
  have g: "\<exists>e. goto_result offline_world ''https://accounts.google.com/'' = Inl e"
    by (simp add: offline_world_def)
  have v: "\<forall>s\<in>set avatar_selectors. \<exists>e. visible_result signed_out_world s = Inl e"
    by (simp add: signed_out_world_def quiet_world_def)
  have s: "(\<exists>x. on_result slow_navigation_world = Inr x)
        \<and> (\<exists>y. remove_result slow_navigation_world = Inr y)"
    and sg: "\<exists>e. goto_result slow_navigation_world ?u = Inl e"
    by (simp_all add: slow_navigation_world_def quiet_world_def)
  have d: "(\<exists>x. on_result unreadable_dom_world = Inr x)
        \<and> (\<exists>y. remove_result unreadable_dom_world = Inr y)"
    and dg: "\<not> ((\<exists>e. goto_result unreadable_dom_world ?u = Inl e)
              \<or> (\<exists>e. idle_result unreadable_dom_world = Inl e))"
    by (simp_all add: unreadable_dom_world_def quiet_world_def)
  from failures_become_results [of offline_world fresh_page] g
  have 1: "fst (check_google_login_by_avatar offline_world fresh_page) = Inr False"
    by (elim conjE) simp
  from failures_become_results [of signed_out_world fresh_page] v
  have 2: "fst (check_google_login_by_avatar signed_out_world fresh_page) = Inr False"
    by (elim conjE) simp
  from failures_become_results [of slow_navigation_world fresh_page] s sg
  have 3: "fst (check_google_one_status_v2 slow_navigation_world fresh_page)
      = Inr (''error'', None)"
    by (elim conjE) simp
  from failures_become_results [of unreadable_dom_world fresh_page] d dg
  have 4: "fst (check_google_one_status_v2 unreadable_dom_world fresh_page)
      \<noteq> Inr (''error'', None)"
    and 5: "\<exists>b st l. fst (full_google_detection unreadable_dom_world fresh_page)
      = Inr (b, st, l)"
    by (elim conjE, simp)+
  from 1 2 3 4 5 show ?thesis by simp
qed

text \<open>
  C4. In the page-element classifier the first rule has priority. Whenever the query
  for the pending marker \<^verbatim>\<open>[jsname="hSRGPd"]\<close> returns a positive count, the status is
  \<open>link_ready\<close> whatever the other queries would answer, also when the verified marker
  is on the page; and after that query only the operations of the link extractor are
  issued, so no later rule is evaluated.
\<close>

theorem pending_marker_wins:
  assumes \<open>count_result w ''[jsname="hSRGPd"]'' = Inr n\<close> and "0 < n"
  shows \<open>(\<exists>l. fst (detect_page_elements w p) = Inr (''link_ready'', l))
     \<and> (\<exists>cs. snd (detect_page_elements w p)
                = appended (LocatorCount ''[jsname="hSRGPd"]'' # cs) p
           \<and> list_all (\<lambda>c. c = LocatorCount ''a[href*="sheerid.com"]''
                    \<or> c = GetAttribute ''a[href*="sheerid.com"]'' ''href'' \<or> c = Content) cs)\<close>
proof (intro conjI)
  note r = rule_one_shape [OF assms, of p]
  from r show \<open>\<exists>l. fst (detect_page_elements w p) = Inr (''link_ready'', l)\<close>
    by simp
  from extract_calls [of w \<open>called (LocatorCount ''[jsname="hSRGPd"]'') p\<close>]
  obtain cs where
    s: \<open>snd (extract_sheerid_link w (called (LocatorCount ''[jsname="hSRGPd"]'') p))
         = appended cs (called (LocatorCount ''[jsname="hSRGPd"]'') p)\<close>
    and a: \<open>list_all (\<lambda>c. c = LocatorCount ''a[href*="sheerid.com"]''
                    \<or> c = GetAttribute ''a[href*="sheerid.com"]'' ''href'' \<or> c = Content) cs\<close>
    by (elim exE conjE) (rule that; assumption)
  from r s have \<open>snd (detect_page_elements w p)
                = appended (LocatorCount ''[jsname="hSRGPd"]'' # cs) p\<close>
    by (simp add: called_appended appended_appended)
  with a show \<open>\<exists>cs. snd (detect_page_elements w p)
                = appended (LocatorCount ''[jsname="hSRGPd"]'' # cs) p
           \<and> list_all (\<lambda>c. c = LocatorCount ''a[href*="sheerid.com"]''
                    \<or> c = GetAttribute ''a[href*="sheerid.com"]'' ''href'' \<or> c = Content) cs\<close>
    by - (intro exI conjI, assumption, assumption)
qed

theorem pending_marker_wins_witness:
  \<open>count_result crowded_world ''[jsname="hSRGPd"]'' = Inr 1
   \<and> count_result crowded_world ''[jsname="V67aGc"]'' = Inr 1
   \<and> (\<exists>l. fst (detect_page_elements crowded_world fresh_page) = Inr (''link_ready'', l))
   \<and> (\<exists>cs. calls (snd (detect_page_elements crowded_world fresh_page))
              = LocatorCount ''[jsname="hSRGPd"]'' # cs
         \<and> LocatorCount ''[jsname="V67aGc"]'' \<notin> set cs)\<close>
proof -
  have h: \<open>count_result crowded_world ''[jsname="hSRGPd"]'' = Inr 1\<close>
    and v: \<open>count_result crowded_world ''[jsname="V67aGc"]'' = Inr 1\<close>
    by (simp_all add: crowded_world_def)
  have lt: "(0::nat) < 1" by simp
  note t = pending_marker_wins [OF h lt, of fresh_page]
  from t have l: \<open>\<exists>l. fst (detect_page_elements crowded_world fresh_page) = Inr (''link_ready'', l)\<close>
    by simp
  from t obtain cs where
    s: \<open>snd (detect_page_elements crowded_world fresh_page)
          = appended (LocatorCount ''[jsname="hSRGPd"]'' # cs) fresh_page\<close>
    and a: \<open>list_all (\<lambda>c. c = LocatorCount ''a[href*="sheerid.com"]''
                    \<or> c = GetAttribute ''a[href*="sheerid.com"]'' ''href'' \<or> c = Content) cs\<close>
    by (elim exE conjE) (rule that; assumption)
  have \<open>LocatorCount ''[jsname="V67aGc"]'' \<notin> set cs\<close>
  proof
    assume m: \<open>LocatorCount ''[jsname="V67aGc"]'' \<in> set cs\<close>
    from a [unfolded list_all_iff, rule_format, OF m] show False by simp
  qed
  with s have \<open>\<exists>cs. calls (snd (detect_page_elements crowded_world fresh_page))
              = LocatorCount ''[jsname="hSRGPd"]'' # cs
         \<and> LocatorCount ''[jsname="V67aGc"]'' \<notin> set cs\<close>
    by (simp add: appended_calls fresh_page_def)
  with h v l show ?thesis by simp
qed

text \<open>
  C2, as stated, fails. On a page that shows the pending marker and carries no
  verification link, the status is \<open>link_ready\<close> and the link is absent.
\<close>

theorem link_ready_without_link:
  "fst (full_google_detection pending_world fresh_page) = Inr (True, ''link_ready'', None)"
  by code_simp

text \<open>
  C2, amended. In every result of the detection, of the qualification check and of the
  page-element classifier, a link is present only if the status is \<open>link_ready\<close>. With
  status \<open>link_ready\<close> the link slot holds exactly what the link extractor found; it is
  empty only when the extractor found nothing, and then the result comes from the first
  page-element rule, that is, from a page on which the pending marker is present. On
  such a page the classifier answers \<open>link_ready\<close> with the link the extractor found,
  or with none if it found none.
\<close>

theorem evidence_link_needs_link_ready:
  \<open>((fst (full_google_detection w p) = Inr (b, st, l)
        \<or> fst (check_google_one_status_v2 w p) = Inr (st, l)
        \<or> fst (detect_page_elements w p) = Inr (st, l))
      \<longrightarrow> (l \<noteq> None \<longrightarrow> st = ''link_ready'')
          \<and> (st = ''link_ready'' \<longrightarrow> fst (extract_sheerid_link w q) = Inr l)
          \<and> (st = ''link_ready'' \<and> l = None
               \<longrightarrow> (\<exists>n>0. count_result w ''[jsname="hSRGPd"]'' = Inr n)))
   \<and> ((\<exists>n>0. count_result w ''[jsname="hSRGPd"]'' = Inr n)
        \<and> fst (extract_sheerid_link w q) = Inr found
      \<longrightarrow> fst (detect_page_elements w p) = Inr (''link_ready'', found))\<close>
proof (rule conjI; rule impI)
  assume \<open>fst (full_google_detection w p) = Inr (b, st, l)
        \<or> fst (check_google_one_status_v2 w p) = Inr (st, l)
        \<or> fst (detect_page_elements w p) = Inr (st, l)\<close>
  then show \<open>(l \<noteq> None \<longrightarrow> st = ''link_ready'')
          \<and> (st = ''link_ready'' \<longrightarrow> fst (extract_sheerid_link w q) = Inr l)
          \<and> (st = ''link_ready'' \<and> l = None
               \<longrightarrow> (\<exists>n>0. count_result w ''[jsname="hSRGPd"]'' = Inr n))\<close>
    (is ?evidence)
  proof (elim disjE)
    assume "fst (full_google_detection w p) = Inr (b, st, l)"
    then show ?evidence by (rule full_evidence)
  next
    assume "fst (check_google_one_status_v2 w p) = Inr (st, l)"
    then show ?evidence by (rule check_evidence)
  next
    assume "fst (detect_page_elements w p) = Inr (st, l)"
    then show ?evidence by (rule detect_evidence)
  qed
next
  assume \<open>(\<exists>n>0. count_result w ''[jsname="hSRGPd"]'' = Inr n)
        \<and> fst (extract_sheerid_link w q) = Inr found\<close>
  then obtain n where n: \<open>count_result w ''[jsname="hSRGPd"]'' = Inr n\<close> "0 < n"
    and x: "fst (extract_sheerid_link w q) = Inr found"
    by (elim conjE exE)
  from n x show "fst (detect_page_elements w p) = Inr (''link_ready'', found)"
    by (simp add: detect_result [of w p q])
qed

theorem evidence_link_needs_link_ready_witness:
  \<open>fst (full_google_detection linked_world fresh_page)
       = Inr (True, ''link_ready'', Some ''https://services.sheerid.com/verify/1'')
   \<and> fst (extract_sheerid_link linked_world fresh_page)
       = Inr (Some ''https://services.sheerid.com/verify/1'')
   \<and> fst (full_google_detection pending_world fresh_page) = Inr (True, ''link_ready'', None)
   \<and> fst (extract_sheerid_link pending_world fresh_page) = Inr None
   \<and> (\<exists>n>0. count_result pending_world ''[jsname="hSRGPd"]'' = Inr n)
   \<and> fst (detect_page_elements pending_world fresh_page) = Inr (''link_ready'', None)\<close>
proof -
  have a: \<open>fst (full_google_detection linked_world fresh_page)
       = Inr (True, ''link_ready'', Some ''https://services.sheerid.com/verify/1'')\<close>
    by code_simp
  have b: \<open>fst (full_google_detection pending_world fresh_page)
       = Inr (True, ''link_ready'', None)\<close>
    by code_simp
  note lw = evidence_link_needs_link_ready
    [of linked_world fresh_page True "''link_ready''"
        "Some ''https://services.sheerid.com/verify/1''" fresh_page]
  from a lw [THEN conjunct1]
  have c: \<open>fst (extract_sheerid_link linked_world fresh_page)
       = Inr (Some ''https://services.sheerid.com/verify/1'')\<close>
    by simp
  note pw = evidence_link_needs_link_ready
    [of pending_world fresh_page True "''link_ready''" None fresh_page None]
  from b pw [THEN conjunct1]
  have d: \<open>fst (extract_sheerid_link pending_world fresh_page) = Inr None\<close>
    and e: \<open>\<exists>n>0. count_result pending_world ''[jsname="hSRGPd"]'' = Inr n\<close>
    by simp_all
  from d e pw [THEN conjunct2]
  have f: "fst (detect_page_elements pending_world fresh_page) = Inr (''link_ready'', None)"
    by simp
  from a b c d e f show ?thesis by simp
qed

text \<open>
  C3, as stated, fails: the handler has no first-match guard. A second response of the
  watched call replaces the stored body. When the bodies \<^verbatim>\<open>["2 TB"]\<close> and \<^verbatim>\<open>[]\<close> arrive
  in this order during the navigation, the check no longer answers \<open>subscribed\<close>, as
  it does when only the first arrives.
\<close>

theorem second_match_overwrites:
  \<open>api_response_data (deliver [subscribed_response]
        \<lparr>api_response_data = None, response_received = False\<rparr>) = Some ''["2 TB"]''
   \<and> api_response_data (deliver [subscribed_response, plain_response]
        \<lparr>api_response_data = None, response_received = False\<rparr>) = Some ''[]''
   \<and> fst (check_google_one_status_v2 answered_world fresh_page) = Inr (''subscribed'', None)
   \<and> fst (check_google_one_status_v2 twice_answered_world fresh_page)
       = Inr (''ineligible'', None)\<close>
  by code_simp

text \<open>
  C3, amended. After any sequence of responses has been handled, the stored body is
  that of the last response whose URL contains the call identifier and whose body could
  be read, and the event is set; when the sequence has no such response, both variables
  are as they were. So a set event stays set, and every later match overwrites the body.
\<close>

theorem deliver_keeps_last_match:
  "deliver rs c =
     (if filter captures rs = [] then c
      else c\<lparr>api_response_data := Some (body_of (last (filter captures rs))),
             response_received := True\<rparr>)"
proof (induction rs rule: rev_induct)
  case Nil
  show ?case by (simp add: deliver_def)
next
  case (snoc r rs)
  show ?case
    unfolding deliver_snoc snoc.IH handle_response_eq by simp
qed

theorem deliver_keeps_last_match_witness:
  \<open>filter captures [subscribed_response, plain_response] = [subscribed_response, plain_response]
   \<and> deliver [subscribed_response, plain_response]
        \<lparr>api_response_data = Some ''x'', response_received = True\<rparr>
      = \<lparr>api_response_data = Some ''[]'', response_received = True\<rparr>\<close>
proof -
  have f: "filter captures [subscribed_response, plain_response]
      = [subscribed_response, plain_response]"
    by (simp add: captures_def subscribed_response_def plain_response_def)
  from deliver_keeps_last_match
    [of "[subscribed_response, plain_response]"
        "\<lparr>api_response_data = Some ''x'', response_received = True\<rparr>"] f
  show ?thesis by (simp add: body_of_def plain_response_def)
qed

text \<open>
  C8, as stated, fails. The completion signal is set during its await, by a response
  with a subscribed payload, and then the network-idle wait exceeds its bound: the check
  answers \<open>error\<close>, not \<open>subscribed\<close> as it does when the network settles. The
  network-idle wait is issued after the await of the event, and its outcome is not
  discarded.
\<close>

theorem settled_wait_not_discarded:
  "fst (check_google_one_status_v2 answered_world fresh_page) = Inr (''subscribed'', None)
   \<and> fst (check_google_one_status_v2 answered_unsettled_world fresh_page) = Inr (''error'', None)
   \<and> calls (snd (check_google_one_status_v2 answered_unsettled_world fresh_page))
       = [On ''response'', Goto ''https://one.google.com/ai-student?g1_landing_page=75'',
          WaitForEvent, WaitForLoadState ''networkidle'', RemoveListener ''response'']"
  by code_simp

text \<open>
  C8, amended. After a successful navigation the check awaits the completion event and
  then, once that await has ended, the network-idle state: the two operations follow
  each other in this order on every run that has registered its handler. A failure of
  the network-idle wait ends the check with \<open>error\<close> whatever was captured; when it
  succeeds, the result is decided by the body stored once both waits are over, the API
  status if it has one and the page-element classification otherwise. (\<open>returned\<close>
  passes this result on unless registering or removing the handler raised.)
\<close>

theorem awaits_run_in_sequence:
  assumes "goto_result w ''https://one.google.com/ai-student?g1_landing_page=75'' = Inr x"
  shows "((\<exists>x0. on_result w = Inr x0) \<longrightarrow>
          (\<exists>cs. calls (snd (check_google_one_status_v2 w p))
            = calls p @ On ''response''
                # Goto ''https://one.google.com/ai-student?g1_landing_page=75''
                # WaitForEvent # WaitForLoadState ''networkidle'' # cs))
     \<and> ((\<exists>e. idle_result w = Inl e)
          \<longrightarrow> fst (check_google_one_status_v2 w p) = returned w (Inr (''error'', None)))
     \<and> ((\<exists>y. idle_result w = Inr y)
          \<longrightarrow> fst (check_google_one_status_v2 w p)
               = returned w
                   (case api_status w of
                      Some st \<Rightarrow> Inr (st, None)
                    | None \<Rightarrow> fst (detect_page_elements w q)))"
proof (intro conjI impI)
  assume "\<exists>x0. on_result w = Inr x0"
  then obtain x0 where on: "on_result w = Inr x0" ..
  from check_calls [OF on assms, of p]
  show "\<exists>cs. calls (snd (check_google_one_status_v2 w p))
            = calls p @ On ''response''
                # Goto ''https://one.google.com/ai-student?g1_landing_page=75''
                # WaitForEvent # WaitForLoadState ''networkidle'' # cs" .
next
  assume "\<exists>e. idle_result w = Inl e"
  with assms show "fst (check_google_one_status_v2 w p) = returned w (Inr (''error'', None))"
    by (auto simp add: check_result [of w p q])
next
  assume "\<exists>y. idle_result w = Inr y"
  with assms show "fst (check_google_one_status_v2 w p)
               = returned w
                   (case api_status w of
                      Some st \<Rightarrow> Inr (st, None)
                    | None \<Rightarrow> fst (detect_page_elements w q))"
    by (auto simp add: check_result [of w p q])
qed

theorem awaits_run_in_sequence_witness:
  "goto_result answered_unsettled_world
      ''https://one.google.com/ai-student?g1_landing_page=75'' = Inr ()
   \<and> idle_result answered_unsettled_world = Inl PlaywrightTimeoutError
   \<and> api_status answered_unsettled_world = Some ''subscribed''
   \<and> fst (check_google_one_status_v2 answered_unsettled_world fresh_page)
       = Inr (''error'', None)
   \<and> idle_result answered_world = Inr ()
   \<and> api_status answered_world = Some ''subscribed''
   \<and> fst (check_google_one_status_v2 answered_world fresh_page) = Inr (''subscribed'', None)"
proof -
  have g: "goto_result answered_unsettled_world
      ''https://one.google.com/ai-student?g1_landing_page=75'' = Inr ()"
    and g': "goto_result answered_world
      ''https://one.google.com/ai-student?g1_landing_page=75'' = Inr ()"
    and i: "idle_result answered_unsettled_world = Inl PlaywrightTimeoutError"
    and i': "idle_result answered_world = Inr ()"
    and o: "on_result answered_unsettled_world = Inr ()"
      "remove_result answered_unsettled_world = Inr ()"
    and o': "on_result answered_world = Inr ()" "remove_result answered_world = Inr ()"
    by (simp_all add: answered_unsettled_world_def answered_world_def quiet_world_def)
  have a: "api_status answered_unsettled_world = Some ''subscribed''"
    and a': "api_status answered_world = Some ''subscribed''"
    by code_simp+
  from awaits_run_in_sequence [OF g, of fresh_page fresh_page] i
  have 1: "fst (check_google_one_status_v2 answered_unsettled_world fresh_page)
       = Inr (''error'', None)"
    by (elim conjE) (simp add: returned_simps(3) [OF o])
  from awaits_run_in_sequence [OF g', of fresh_page fresh_page] i' a'
  have 2: "fst (check_google_one_status_v2 answered_world fresh_page) = Inr (''subscribed'', None)"
    by (elim conjE) (simp add: returned_simps(3) [OF o'])
  from g i a 1 i' a' 2 show ?thesis by simp
qed

text \<open>
  C9, as stated, fails. A navigation that exceeds its bound ends the check with
  \<open>error\<close>; so does a network-idle wait that exceeds its bound, here on a page whose
  elements would classify as \<open>verified\<close>.
\<close>

theorem navigation_and_idle_timeouts_are_fatal:
  "goto_result slow_navigation_world ''https://one.google.com/ai-student?g1_landing_page=75''
       = Inl PlaywrightTimeoutError
   \<and> fst (check_google_one_status_v2 slow_navigation_world fresh_page) = Inr (''error'', None)
   \<and> idle_result unsettled_verified_world = Inl PlaywrightTimeoutError
   \<and> fst (check_google_one_status_v2 unsettled_verified_world fresh_page) = Inr (''error'', None)
   \<and> fst (detect_page_elements unsettled_verified_world fresh_page) = Inr (''verified'', None)"
  by code_simp

text \<open>
  C9, amended. Of the three waits only the await of the completion event may time out
  without ending the check: with navigation and network-idle wait successful, a timed-out
  await leads on to the classifier stages, and the status is not \<open>error\<close>. A failed
  navigation and a failed network-idle wait, a timeout included, give \<open>(error, None)\<close>.
  (\<open>returned\<close> passes these results on unless registering or removing the handler
  raised.)
\<close>

theorem only_the_event_wait_may_time_out:
  "((\<exists>e. goto_result w ''https://one.google.com/ai-student?g1_landing_page=75'' = Inl e)
      \<longrightarrow> fst (check_google_one_status_v2 w p) = returned w (Inr (''error'', None)))
   \<and> ((\<exists>x. goto_result w ''https://one.google.com/ai-student?g1_landing_page=75'' = Inr x)
        \<and> (\<exists>e. idle_result w = Inl e)
      \<longrightarrow> fst (check_google_one_status_v2 w p) = returned w (Inr (''error'', None)))
   \<and> ((\<exists>x. goto_result w ''https://one.google.com/ai-student?g1_landing_page=75'' = Inr x)
        \<and> (\<exists>y. idle_result w = Inr y)
        \<and> fst (wait_for_event w
                 (deliver (goto_responses w)
                    \<lparr>api_response_data = None, response_received = False\<rparr>) q)
            = Inl AsyncioTimeoutError
      \<longrightarrow> fst (check_google_one_status_v2 w p)
            = returned w
                (case api_status w of
                   Some st \<Rightarrow> Inr (st, None)
                 | None \<Rightarrow> fst (detect_page_elements w q))
          \<and> (\<forall>l. fst (check_google_one_status_v2 w p) \<noteq> Inr (''error'', l)))"
proof (intro conjI impI allI)
  assume "\<exists>e. goto_result w ''https://one.google.com/ai-student?g1_landing_page=75'' = Inl e"
  then show "fst (check_google_one_status_v2 w p) = returned w (Inr (''error'', None))"
    by (auto simp add: check_result [of w p q])
next
  assume "(\<exists>x. goto_result w ''https://one.google.com/ai-student?g1_landing_page=75'' = Inr x)
        \<and> (\<exists>e. idle_result w = Inl e)"
  then show "fst (check_google_one_status_v2 w p) = returned w (Inr (''error'', None))"
    by (auto simp add: check_result [of w p q])
next
  assume a: "(\<exists>x. goto_result w ''https://one.google.com/ai-student?g1_landing_page=75'' = Inr x)
        \<and> (\<exists>y. idle_result w = Inr y)
        \<and> fst (wait_for_event w
                 (deliver (goto_responses w)
                    \<lparr>api_response_data = None, response_received = False\<rparr>) q)
            = Inl AsyncioTimeoutError"
  then show c: "fst (check_google_one_status_v2 w p)
            = returned w
                (case api_status w of
                   Some st \<Rightarrow> Inr (st, None)
                 | None \<Rightarrow> fst (detect_page_elements w q))"
    by (auto simp add: check_result [of w p q])
  fix l
  show "fst (check_google_one_status_v2 w p) \<noteq> Inr (''error'', l)"
    unfolding c using classified_not_error [of w q l]
    by (cases "on_result w"; cases "remove_result w") (simp_all add: returned_def)
qed

theorem only_the_event_wait_may_time_out_witness:
  "fst (wait_for_event quiet_world
          (deliver (goto_responses quiet_world)
             \<lparr>api_response_data = None, response_received = False\<rparr>) fresh_page)
       = Inl AsyncioTimeoutError
   \<and> fst (check_google_one_status_v2 quiet_world fresh_page) = Inr (''ineligible'', None)
   \<and> fst (check_google_one_status_v2 slow_navigation_world fresh_page) = Inr (''error'', None)"
proof -
  have g: "goto_result quiet_world ''https://one.google.com/ai-student?g1_landing_page=75''
      = Inr ()"
    and i: "idle_result quiet_world = Inr ()"
    and s: "goto_result slow_navigation_world
      ''https://one.google.com/ai-student?g1_landing_page=75'' = Inl PlaywrightTimeoutError"
    and o: "on_result quiet_world = Inr ()" "remove_result quiet_world = Inr ()"
    and o': "on_result slow_navigation_world = Inr ()"
      "remove_result slow_navigation_world = Inr ()"
    by (simp_all add: quiet_world_def slow_navigation_world_def)
  have t: "fst (wait_for_event quiet_world
          (deliver (goto_responses quiet_world)
             \<lparr>api_response_data = None, response_received = False\<rparr>) fresh_page)
       = Inl AsyncioTimeoutError"
    by code_simp
  have a: "api_status quiet_world = None" by code_simp
  have d: "fst (detect_page_elements quiet_world fresh_page) = Inr (''ineligible'', None)"
    by code_simp
  from only_the_event_wait_may_time_out [of quiet_world fresh_page fresh_page] g i t a d
  have 1: "fst (check_google_one_status_v2 quiet_world fresh_page) = Inr (''ineligible'', None)"
    by (elim conjE) (simp add: returned_simps(3) [OF o])
  from only_the_event_wait_may_time_out [of slow_navigation_world fresh_page fresh_page] s
  have 2: "fst (check_google_one_status_v2 slow_navigation_world fresh_page)
      = Inr (''error'', None)"
    by (elim conjE) (simp add: returned_simps(3) [OF o'])
  from t 1 2 show ?thesis by simp
qed

text \<open>
  C10, as stated, fails. When the query for the pending marker raises, the classifier
  answers \<open>ineligible\<close> at once, although the verified marker is on the page and the
  second rule would match.
\<close>

theorem failed_marker_query_ends_classification:
  \<open>count_result broken_query_world ''[jsname="hSRGPd"]'' = Inl PlaywrightError
   \<and> count_result broken_query_world ''[jsname="V67aGc"]'' = Inr 1
   \<and> fst (detect_page_elements broken_query_world fresh_page) = Inr (''ineligible'', None)\<close>
  by code_simp

text \<open>
  C10, amended. The page-element classifier never raises. An exception from the marker
  query of the first rule, or of the second, ends the classification at once with
  \<open>ineligible\<close> and no link: that query is the last operation issued, no later rule is
  evaluated. An exception inside the link extractor counts as no link found. When both
  markers are absent and no link is found, the offer selectors are queried after the
  extractor and decide: \<open>verified\<close> if one of them has a positive count, a selector
  whose query raises being passed over, and \<open>ineligible\<close> with no link otherwise.
\<close>

theorem failures_in_detect_page_elements:
  \<open>(\<exists>st l. fst (detect_page_elements w p) = Inr (st, l))
   \<and> ((\<exists>e. count_result w ''[jsname="hSRGPd"]'' = Inl e)
        \<longrightarrow> fst (detect_page_elements w p) = Inr (''ineligible'', None))
   \<and> (count_result w ''[jsname="hSRGPd"]'' = Inr 0
        \<and> (\<exists>e. count_result w ''[jsname="V67aGc"]'' = Inl e)
        \<longrightarrow> fst (detect_page_elements w p) = Inr (''ineligible'', None))
   \<and> ((\<exists>e. fst (extract_sheerid_link_try w q) = Inl e)
        \<longrightarrow> fst (extract_sheerid_link w q) = Inr None)
   \<and> (count_result w ''[jsname="hSRGPd"]'' = Inr 0
        \<and> count_result w ''[jsname="V67aGc"]'' = Inr 0
        \<and> fst (extract_sheerid_link w q) = Inr None
        \<longrightarrow> fst (detect_page_elements w p)
             = Inr (if (\<exists>s\<in>set offer_selectors. \<exists>n>0. count_result w s = Inr n)
                    then ''verified'' else ''ineligible'', None))
   \<and> ((\<exists>e. count_result w ''[jsname="hSRGPd"]'' = Inl e)
        \<longrightarrow> snd (detect_page_elements w p)
             = appended [LocatorCount ''[jsname="hSRGPd"]''] p)
   \<and> (count_result w ''[jsname="hSRGPd"]'' = Inr 0
        \<and> (\<exists>e. count_result w ''[jsname="V67aGc"]'' = Inl e)
        \<longrightarrow> snd (detect_page_elements w p)
             = appended [LocatorCount ''[jsname="hSRGPd"]'',
                         LocatorCount ''[jsname="V67aGc"]''] p)
   \<and> (count_result w ''[jsname="hSRGPd"]'' = Inr 0
        \<and> count_result w ''[jsname="V67aGc"]'' = Inr 0
        \<and> fst (extract_sheerid_link w q) = Inr None
        \<longrightarrow> (\<exists>cs cs'. snd (detect_page_elements w p)
               = appended (LocatorCount ''[jsname="hSRGPd"]''
                    # LocatorCount ''[jsname="V67aGc"]''
                    # cs @ LocatorCount ''button:has-text("Get student offer")'' # cs') p
              \<and> list_all (\<lambda>c. c = LocatorCount ''a[href*="sheerid.com"]''
                    \<or> c = GetAttribute ''a[href*="sheerid.com"]'' ''href''
                    \<or> c = Content) cs))\<close>
proof (intro conjI)
  from detect_shape [of w] obtain st l cs
    where d: "\<forall>p. detect_page_elements w p = (Inr (st, l), appended cs p)"
    by (elim exE conjE) (rule that; assumption)
  then show "\<exists>st l. fst (detect_page_elements w p) = Inr (st, l)" by simp
  show \<open>(\<exists>e. count_result w ''[jsname="hSRGPd"]'' = Inl e)
        \<longrightarrow> fst (detect_page_elements w p) = Inr (''ineligible'', None)\<close>
    by (auto simp add: detect_result [of w p q])
  show \<open>count_result w ''[jsname="hSRGPd"]'' = Inr 0
        \<and> (\<exists>e. count_result w ''[jsname="V67aGc"]'' = Inl e)
        \<longrightarrow> fst (detect_page_elements w p) = Inr (''ineligible'', None)\<close>
    by (auto simp add: detect_result [of w p q])
  show "(\<exists>e. fst (extract_sheerid_link_try w q) = Inl e)
        \<longrightarrow> fst (extract_sheerid_link w q) = Inr None"
    by (auto intro: extract_absorbs)
  show \<open>count_result w ''[jsname="hSRGPd"]'' = Inr 0
        \<and> count_result w ''[jsname="V67aGc"]'' = Inr 0
        \<and> fst (extract_sheerid_link w q) = Inr None
        \<longrightarrow> fst (detect_page_elements w p)
             = Inr (if (\<exists>s\<in>set offer_selectors. \<exists>n>0. count_result w s = Inr n)
                    then ''verified'' else ''ineligible'', None)\<close>
  proof (intro impI, elim conjE)
    assume a: \<open>count_result w ''[jsname="hSRGPd"]'' = Inr 0\<close>
      \<open>count_result w ''[jsname="V67aGc"]'' = Inr 0\<close>
      "fst (extract_sheerid_link w q) = Inr None"
    show \<open>fst (detect_page_elements w p)
             = Inr (if (\<exists>s\<in>set offer_selectors. \<exists>n>0. count_result w s = Inr n)
                    then ''verified'' else ''ineligible'', None)\<close>
      by (cases "\<exists>s\<in>set offer_selectors. \<exists>n>0. count_result w s = Inr n")
        (simp_all add: detect_result [of w p q] a)
  qed
  show \<open>(\<exists>e. count_result w ''[jsname="hSRGPd"]'' = Inl e)
        \<longrightarrow> snd (detect_page_elements w p)
             = appended [LocatorCount ''[jsname="hSRGPd"]''] p\<close>
    by (intro impI, elim exE) (rule detect_log_rule_one)
  show \<open>count_result w ''[jsname="hSRGPd"]'' = Inr 0
        \<and> (\<exists>e. count_result w ''[jsname="V67aGc"]'' = Inl e)
        \<longrightarrow> snd (detect_page_elements w p)
             = appended [LocatorCount ''[jsname="hSRGPd"]'',
                         LocatorCount ''[jsname="V67aGc"]''] p\<close>
    by (intro impI, elim conjE exE) (rule detect_log_rule_two)
  show \<open>count_result w ''[jsname="hSRGPd"]'' = Inr 0
        \<and> count_result w ''[jsname="V67aGc"]'' = Inr 0
        \<and> fst (extract_sheerid_link w q) = Inr None
        \<longrightarrow> (\<exists>cs cs'. snd (detect_page_elements w p)
               = appended (LocatorCount ''[jsname="hSRGPd"]''
                    # LocatorCount ''[jsname="V67aGc"]''
                    # cs @ LocatorCount ''button:has-text("Get student offer")'' # cs') p
              \<and> list_all (\<lambda>c. c = LocatorCount ''a[href*="sheerid.com"]''
                    \<or> c = GetAttribute ''a[href*="sheerid.com"]'' ''href''
                    \<or> c = Content) cs)\<close>
    by (intro impI, elim conjE) (rule detect_log_rule_four)
qed

theorem failures_in_detect_page_elements_witness:
  \<open>fst (detect_page_elements offline_world fresh_page) = Inr (''ineligible'', None)
   \<and> calls (snd (detect_page_elements offline_world fresh_page))
       = [LocatorCount ''[jsname="hSRGPd"]'']
   \<and> fst (extract_sheerid_link_try flaky_world fresh_page) = Inl PlaywrightError
   \<and> count_result flaky_world ''button:has-text("Get student offer")'' = Inl PlaywrightError
   \<and> fst (detect_page_elements flaky_world fresh_page) = Inr (''verified'', None)
   \<and> fst (detect_page_elements quiet_world fresh_page) = Inr (''ineligible'', None)\<close>
proof -
  have o: \<open>\<exists>e. count_result offline_world ''[jsname="hSRGPd"]'' = Inl e\<close>
    by (simp add: offline_world_def)
  note ol = failures_in_detect_page_elements [of offline_world fresh_page fresh_page]
  from o ol
  have 1: "fst (detect_page_elements offline_world fresh_page) = Inr (''ineligible'', None)"
    by (elim conjE) simp
  from o ol
  have lg: \<open>calls (snd (detect_page_elements offline_world fresh_page))
       = [LocatorCount ''[jsname="hSRGPd"]'']\<close>
    by (elim conjE) (simp add: appended_calls fresh_page_def)
  have f: \<open>count_result flaky_world ''[jsname="hSRGPd"]'' = Inr 0\<close>
    \<open>count_result flaky_world ''[jsname="V67aGc"]'' = Inr 0\<close>
    \<open>count_result flaky_world ''button:has-text("Get student offer")'' = Inl PlaywrightError\<close>
    by (simp_all add: flaky_world_def)
  have t': "fst (extract_sheerid_link_try flaky_world fresh_page) = Inl PlaywrightError"
    by code_simp
  then have t: "\<exists>e. fst (extract_sheerid_link_try flaky_world fresh_page) = Inl e"
    by simp
  have s: \<open>\<exists>s\<in>set offer_selectors. \<exists>n>0. count_result flaky_world s = Inr n\<close>
    by (simp add: offer_selectors_def flaky_world_def)
  note fl = failures_in_detect_page_elements [of flaky_world fresh_page fresh_page]
  from fl t have x: "fst (extract_sheerid_link flaky_world fresh_page) = Inr None"
    by (elim conjE) simp
  from fl f x s have 2: "fst (detect_page_elements flaky_world fresh_page) = Inr (''verified'', None)"
    by (elim conjE) simp
  have q: \<open>count_result quiet_world ''[jsname="hSRGPd"]'' = Inr 0\<close>
    \<open>count_result quiet_world ''[jsname="V67aGc"]'' = Inr 0\<close>
    \<open>\<not> (\<exists>s\<in>set offer_selectors. \<exists>n>0. count_result quiet_world s = Inr n)\<close>
    by (simp_all add: quiet_world_def)
  have qx: "fst (extract_sheerid_link quiet_world fresh_page) = Inr None"
    by code_simp
  from failures_in_detect_page_elements [of quiet_world fresh_page fresh_page] q qx
  have 3: "fst (detect_page_elements quiet_world fresh_page) = Inr (''ineligible'', None)"
    by (elim conjE) simp
  from 1 lg t' f(3) 2 3 show ?thesis by simp
qed

end
